theory Spec2Isabelle
  imports Main
begin

section \<open>Python values that cross the modelled interfaces\<close>

text \<open>
  Exceptions of the Python source are values: every modelled function that can raise
  returns \<open>error + 'a\<close>, with \<open>Inl\<close> for the exception that left the function.
\<close>

datatype error =
    ValueError
  | TypeError
  | KeyError
  | AttributeError
  | AssertionError
  | UnknownVariableError
  | ConvergenceFailure nat

text \<open>
  A Python \<open>dict\<close> keeps its keys in insertion order; assigning to a key that is
  present replaces the value in place, a new key goes to the end.
\<close>

fun dict_setitem :: "'k \<Rightarrow> 'v \<Rightarrow> ('k \<times> 'v) list \<Rightarrow> ('k \<times> 'v) list" where
  "dict_setitem k v [] = [(k, v)]"
| "dict_setitem k v ((k', v') # d) =
     (if k' = k then (k, v) # d else (k', v') # dict_setitem k v d)"

fun dict_update :: "('k \<times> 'v) list \<Rightarrow> ('k \<times> 'v) list \<Rightarrow> ('k \<times> 'v) list" where
  "dict_update d [] = d"
| "dict_update d ((k, v) # items) = dict_update (dict_setitem k v d) items"

definition dict_values :: "('k \<times> 'v) list \<Rightarrow> 'v list" where
  "dict_values d = map snd d"

definition dict_keys :: "('k \<times> 'v) list \<Rightarrow> 'k list" where
  "dict_keys d = map fst d"

section \<open>primitives.py: 'where' specifiers and DOF descriptors\<close>

text \<open>
  The tag carried by a domain specifier: the classes \<open>DEFAULT_SOURCE\<close> and
  \<open>DEFAULT_TARGET\<close>, a string, or some other hashable object (numbered).
\<close>

datatype tag = DEFAULT_SOURCE | DEFAULT_TARGET | Str string | OtherTag nat

text \<open>
  \<open>class DOMAIN_TAG\<close> and its three subclasses; one constructor per class, each
  holding the \<open>tag\<close> attribute.
\<close>

datatype domain_tag =
    DOMAIN_TAG tag
  | QBX_DOMAIN_STAGE1 tag
  | QBX_DOMAIN_STAGE2 tag
  | QBX_DOMAIN_QUAD_STAGE2 tag

datatype domain_class = C_DOMAIN_TAG | C_STAGE1 | C_STAGE2 | C_QUAD_STAGE2

fun type_of_domain :: "domain_tag \<Rightarrow> domain_class" where
  "type_of_domain (DOMAIN_TAG t) = C_DOMAIN_TAG"
| "type_of_domain (QBX_DOMAIN_STAGE1 t) = C_STAGE1"
| "type_of_domain (QBX_DOMAIN_STAGE2 t) = C_STAGE2"
| "type_of_domain (QBX_DOMAIN_QUAD_STAGE2 t) = C_QUAD_STAGE2"

fun tag_of :: "domain_tag \<Rightarrow> tag" where
  "tag_of (DOMAIN_TAG t) = t"
| "tag_of (QBX_DOMAIN_STAGE1 t) = t"
| "tag_of (QBX_DOMAIN_STAGE2 t) = t"
| "tag_of (QBX_DOMAIN_QUAD_STAGE2 t) = t"

text \<open>\<open>DOMAIN_TAG.__eq__\<close>: \<open>type(self) is type(other) and self.tag == other.tag\<close>.\<close>

definition DOMAIN_TAG_eq :: "domain_tag \<Rightarrow> domain_tag \<Rightarrow> bool" where
  "DOMAIN_TAG_eq a b \<longleftrightarrow> type_of_domain a = type_of_domain b \<and> tag_of a = tag_of b"

text \<open>The granularity classes.\<close>

datatype granularity = QBX_DOF_NODE | QBX_DOF_CENTER | QBX_DOF_ELEMENT

record DOFDescriptor =
  domain :: domain_tag
  granularity :: granularity

text \<open>
  \<open>DOFDescriptor.__eq__\<close> between two descriptors (the \<open>type(self) is type(other)\<close>
  test holds for them): the domains compare equal and the granularities compare equal.
\<close>

definition DOFDescriptor_eq :: "DOFDescriptor \<Rightarrow> DOFDescriptor \<Rightarrow> bool" where
  "DOFDescriptor_eq a b \<longleftrightarrow>
     DOMAIN_TAG_eq (domain a) (domain b) \<and> granularity a = granularity b"

text \<open>
  The objects a caller may hand over where a descriptor is expected: \<open>None\<close>, a string,
  one of the two default classes, a domain specifier, a granularity class, a descriptor,
  or any other object (numbered).
\<close>

datatype pyobj =
    PyNone
  | PyStr string
  | PyDEFAULT_SOURCE
  | PyDEFAULT_TARGET
  | PyDomain domain_tag
  | PyGranularity granularity
  | PyDesc DOFDescriptor
  | PyOther nat

text \<open>
  \<open>DOFDescriptor.__init__(domain, granularity=None)\<close>: the two default classes and
  strings are wrapped in \<open>DOMAIN_TAG\<close>; a missing granularity is \<open>QBX_DOF_NODE\<close>;
  a domain that is no \<open>DOMAIN_TAG\<close> instance, or a granularity that is none of the
  three classes, raises \<open>ValueError\<close>.
\<close>

definition DOFDescriptor_init :: "pyobj \<Rightarrow> pyobj \<Rightarrow> error + DOFDescriptor" where
  "DOFDescriptor_init domain_arg granularity_arg =
     (let dom' = (case domain_arg of
                    PyDEFAULT_SOURCE \<Rightarrow> PyDomain (DOMAIN_TAG DEFAULT_SOURCE)
                  | PyDEFAULT_TARGET \<Rightarrow> PyDomain (DOMAIN_TAG DEFAULT_TARGET)
                  | PyStr s \<Rightarrow> PyDomain (DOMAIN_TAG (Str s))
                  | other \<Rightarrow> other);
          gran' = (case granularity_arg of PyNone \<Rightarrow> PyGranularity QBX_DOF_NODE | other \<Rightarrow> other)
      in case dom' of
           PyDomain d \<Rightarrow>
             (case gran' of
                PyGranularity g \<Rightarrow> Inr \<lparr>domain = d, granularity = g\<rparr>
              | _ \<Rightarrow> Inl ValueError)
         | _ \<Rightarrow> Inl ValueError)"

definition as_dofdesc :: "pyobj \<Rightarrow> error + DOFDescriptor" where
  "as_dofdesc desc =
     (case desc of PyDesc d \<Rightarrow> Inr d | other \<Rightarrow> DOFDescriptor_init other PyNone)"

text \<open>
  \<open>execution.py\<close> reads \<open>.geometry\<close> and \<open>.discr_stage\<close> on descriptors. The
  class \<open>DOFDescriptor\<close> sets the instance attributes \<open>domain\<close> and \<open>granularity\<close>
  and nothing else, has the class attribute \<open>init_arg_names\<close> and the methods
  \<open>__hash__\<close>, \<open>__eq__\<close>, \<open>__ne__\<close>, \<open>__getinitargs__\<close> and \<open>__repr__\<close>,
  and derives from \<open>object\<close>: there is no \<open>__getattr__\<close>. Reading either attribute
  on a descriptor therefore raises \<open>AttributeError\<close>.
\<close>

definition geometry :: "DOFDescriptor \<Rightarrow> error + tag" where
  "geometry dd = Inl AttributeError"

definition discr_stage :: "DOFDescriptor \<Rightarrow> error + domain_class option" where
  "discr_stage dd = Inl AttributeError"

text \<open>
  Likewise the module \<open>primitives.py\<close> (\<open>sym\<close>) defines the granularity classes
  \<open>QBX_DOF_NODE\<close>, \<open>QBX_DOF_CENTER\<close> and \<open>QBX_DOF_ELEMENT\<close>, and no name
  \<open>GRANULARITY_NODE\<close> or \<open>GRANULARITY_ELEMENT\<close>: looking one up in the module
  raises \<open>AttributeError\<close>.
\<close>

definition GRANULARITY_NODE :: "error + granularity" where
  "GRANULARITY_NODE = Inl AttributeError"

definition GRANULARITY_ELEMENT :: "error + granularity" where
  "GRANULARITY_ELEMENT = Inl AttributeError"

section \<open>execution.py: resolving \<open>auto_where\<close>\<close>

text \<open>
  The \<open>auto_where\<close> argument: \<open>None\<close>, a list or tuple (of any length), or a single
  other object.
\<close>

datatype auto_where_arg = AW_None | AW_Seq "pyobj list" | AW_Single pyobj

text \<open>
  \<open>_prepare_auto_where(auto_where, places=None)\<close>. Of \<open>places\<close> only the attribute
  \<open>auto_where\<close> is read, so the second argument is that pair, or \<open>None\<close> when no
  collection is given. Unpacking a sequence whose length is not two raises
  \<open>ValueError\<close>.
\<close>

text \<open>The return statement \<open>(sym.as_dofdesc(auto_source), sym.as_dofdesc(auto_target))\<close>.\<close>

definition as_dofdesc_pair :: "pyobj \<Rightarrow> pyobj \<Rightarrow> error + (DOFDescriptor \<times> DOFDescriptor)" where
  "as_dofdesc_pair auto_source auto_target =
     (case as_dofdesc auto_source of
        Inl e \<Rightarrow> Inl e
      | Inr s \<Rightarrow>
          (case as_dofdesc auto_target of
             Inl e \<Rightarrow> Inl e
           | Inr t \<Rightarrow> Inr (s, t)))"

definition prepare_auto_where ::
    "auto_where_arg \<Rightarrow> (DOFDescriptor \<times> DOFDescriptor) option
      \<Rightarrow> error + (DOFDescriptor \<times> DOFDescriptor)" where
  "prepare_auto_where auto_where places_auto_where =
     (case auto_where of
        AW_None \<Rightarrow>
          (case places_auto_where of
             None \<Rightarrow> as_dofdesc_pair PyDEFAULT_SOURCE PyDEFAULT_TARGET
           | Some (s, t) \<Rightarrow> as_dofdesc_pair (PyDesc s) (PyDesc t))
      | AW_Seq xs \<Rightarrow>
          (case xs of
             [s, t] \<Rightarrow> as_dofdesc_pair s t
           | _ \<Rightarrow> Inl ValueError)
      | AW_Single x \<Rightarrow> as_dofdesc_pair x x)"

section \<open>execution.py: the geometry collection\<close>

subsection \<open>Geometry objects and the object store\<close>

text \<open>
  The classes the constructor tests with \<open>isinstance\<close>. A
  \<open>QBXLayerPotentialSource\<close> is a \<open>LayerPotentialSourceBase\<close>, which is a
  \<open>PotentialSource\<close>; a point source is a \<open>PotentialSource\<close> only; targets and
  discretizations are outside that hierarchy; anything else is \<open>OtherObject\<close>.
\<close>

datatype geometry_kind =
    QBXLayerPotentialSource
  | LayerPotentialSource
  | PointPotentialSource
  | TargetBase
  | Discretization
  | OtherObject

definition is_PotentialSource :: "geometry_kind \<Rightarrow> bool" where
  "is_PotentialSource k \<longleftrightarrow>
     k = QBXLayerPotentialSource \<or> k = LayerPotentialSource \<or> k = PointPotentialSource"

text \<open>
  An object handed over as a place: its class, its \<open>ambient_dim\<close> attribute and its
  identity.
\<close>

record geometry_object =
  kind :: geometry_kind
  ambient_dim :: nat
  ident :: nat

text \<open>
  Dictionaries are objects with identity: the constructor keeps the mapping it is given
  (\<open>self.places = places\<close>), \<open>dict.copy\<close> makes a new one. The store is a list of
  objects, an address is an index, and a new object goes to the end. A store object is
  a places dictionary or a dictionary of named caches.
\<close>

datatype ('k, 'v) heap_obj =
    PlacesDict "(tag \<times> geometry_object) list"
  | CachesDict "(string \<times> ('k \<times> 'v) list) list"

type_synonym ('k, 'v) heap = "('k, 'v) heap_obj list"

definition alloc :: "('k, 'v) heap \<Rightarrow> ('k, 'v) heap_obj \<Rightarrow> ('k, 'v) heap \<times> nat" where
  "alloc h ob = (h @ [ob], length h)"

definition places_at :: "('k, 'v) heap \<Rightarrow> nat \<Rightarrow> (tag \<times> geometry_object) list option" where
  "places_at h a =
     (if a < length h then (case h ! a of PlacesDict d \<Rightarrow> Some d | CachesDict c \<Rightarrow> None)
      else None)"

definition caches_at ::
    "('k, 'v) heap \<Rightarrow> nat \<Rightarrow> (string \<times> ('k \<times> 'v) list) list option" where
  "caches_at h a =
     (if a < length h then (case h ! a of CachesDict c \<Rightarrow> Some c | PlacesDict d \<Rightarrow> None)
      else None)"

text \<open>\<open>d[k] = v\<close> on the places dictionary at address \<open>a\<close>.\<close>

definition places_setitem ::
    "('k, 'v) heap \<Rightarrow> nat \<Rightarrow> tag \<Rightarrow> geometry_object \<Rightarrow> ('k, 'v) heap" where
  "places_setitem h a k v =
     (case places_at h a of
        Some d \<Rightarrow> h[a := PlacesDict (dict_setitem k v d)]
      | None \<Rightarrow> h)"

record GeometryCollection =
  places :: nat
  caches :: nat
  auto_where :: "DOFDescriptor \<times> DOFDescriptor"

subsection \<open>\<open>_is_valid_identifier\<close>\<close>

text \<open>
  The Python 3 branch: \<open>name.isidentifier() and not keyword.iskeyword(name)\<close>. Names
  are modelled over ASCII: a letter or underscore, then letters, digits and underscores.
\<close>

definition is_letter_or_underscore :: "char \<Rightarrow> bool" where
  "is_letter_or_underscore c =
     (let n = (of_char c :: nat)
      in (65 \<le> n \<and> n \<le> 90) \<or> (97 \<le> n \<and> n \<le> 122) \<or> n = 95)"

definition is_digit :: "char \<Rightarrow> bool" where
  "is_digit c = (let n = (of_char c :: nat) in 48 \<le> n \<and> n \<le> 57)"

fun isidentifier :: "string \<Rightarrow> bool" where
  "isidentifier [] = False"
| "isidentifier (c # cs) =
     (is_letter_or_underscore c \<and> list_all (\<lambda>x. is_letter_or_underscore x \<or> is_digit x) cs)"

definition kwlist :: "string list" where
  "kwlist = [''False'', ''None'', ''True'', ''and'', ''as'', ''assert'', ''async'', ''await'',
     ''break'', ''class'', ''continue'', ''def'', ''del'', ''elif'', ''else'', ''except'',
     ''finally'', ''for'', ''from'', ''global'', ''if'', ''import'', ''in'', ''is'', ''lambda'',
     ''nonlocal'', ''not'', ''or'', ''pass'', ''raise'', ''return'', ''try'', ''while'', ''with'',
     ''yield'']"

definition is_valid_identifier :: "string \<Rightarrow> bool" where
  "is_valid_identifier name \<longleftrightarrow> isidentifier name \<and> name \<notin> set kwlist"

subsection \<open>\<open>GeometryCollection.__init__\<close>\<close>

text \<open>
  The \<open>places\<close> argument: a single object, a tuple of objects, or a mapping (by
  address).
\<close>

datatype places_arg = Scalar geometry_object | Tuple "geometry_object list" | Mapping nat

text \<open>
  What \<open>self.places\<close> holds once the dispatch is over: a dictionary, or the raw
  argument that the last branch assigned.
\<close>

datatype places_val = DictRef nat | RawObject geometry_object

text \<open>
  The first \<open>if\<close>/\<open>elif\<close>. For a QBX source the statement is
  \<open>self.places[auto_source.geometry] = places\<close>, then the target descriptor becomes
  the source descriptor; for a target it is \<open>self.places[auto_target.geometry] =
  places\<close>, then the source descriptor becomes the target descriptor. The key is
  evaluated first, and the statement is left with the exception when that fails.
\<close>

definition init_dispatch1 ::
    "('k, 'v) heap \<Rightarrow> nat \<Rightarrow> places_arg \<Rightarrow> DOFDescriptor \<Rightarrow> DOFDescriptor
      \<Rightarrow> (error + DOFDescriptor \<times> DOFDescriptor) \<times> ('k, 'v) heap" where
  "init_dispatch1 h p arg auto_source auto_target =
     (case arg of
        Scalar g \<Rightarrow>
          (if kind g = QBXLayerPotentialSource then
             (case geometry auto_source of
                Inl e \<Rightarrow> (Inl e, h)
              | Inr name \<Rightarrow> (Inr (auto_source, auto_source), places_setitem h p name g))
           else if kind g = TargetBase then
             (case geometry auto_target of
                Inl e \<Rightarrow> (Inl e, h)
              | Inr name \<Rightarrow> (Inr (auto_target, auto_target), places_setitem h p name g))
           else (Inr (auto_source, auto_target), h))
      | _ \<Rightarrow> (Inr (auto_source, auto_target), h))"

text \<open>
  The second statement is a new \<open>if\<close>, not a continuation of the first: a
  discretization or potential source is stored under both names, a tuple is unpacked
  into two objects (\<open>ValueError\<close> for another length) which are stored under the two
  names, and everything else (a mapping, but also a single object that is neither) is
  assigned to \<open>self.places\<close> as it is. The stores are the two statements
  \<open>self.places[auto_source.geometry] = ...\<close> and
  \<open>self.places[auto_target.geometry] = ...\<close>, in this order.
\<close>

definition store_both ::
    "('k, 'v) heap \<Rightarrow> nat \<Rightarrow> DOFDescriptor \<Rightarrow> DOFDescriptor
      \<Rightarrow> geometry_object \<Rightarrow> geometry_object \<Rightarrow> (error + places_val) \<times> ('k, 'v) heap" where
  "store_both h p auto_source auto_target source_discr target_discr =
     (case geometry auto_source of
        Inl e \<Rightarrow> (Inl e, h)
      | Inr source_name \<Rightarrow>
          (let h' = places_setitem h p source_name source_discr
           in case geometry auto_target of
                Inl e \<Rightarrow> (Inl e, h')
              | Inr target_name \<Rightarrow>
                  (Inr (DictRef p), places_setitem h' p target_name target_discr)))"

definition init_dispatch2 ::
    "('k, 'v) heap \<Rightarrow> nat \<Rightarrow> places_arg \<Rightarrow> DOFDescriptor \<Rightarrow> DOFDescriptor
      \<Rightarrow> (error + places_val) \<times> ('k, 'v) heap" where
  "init_dispatch2 h p arg auto_source auto_target =
     (case arg of
        Scalar g \<Rightarrow>
          (if kind g = Discretization \<or> is_PotentialSource (kind g) then
             store_both h p auto_source auto_target g g
           else (Inr (RawObject g), h))
      | Tuple gs \<Rightarrow>
          (case gs of
             [source_discr, target_discr] \<Rightarrow>
               store_both h p auto_source auto_target source_discr target_discr
           | _ \<Rightarrow> (Inl ValueError, h))
      | Mapping a \<Rightarrow> (Inr (DictRef a), h))"

text \<open>
  The two validation loops. \<open>six.itervalues\<close> needs a mapping: on anything else the
  attribute lookup fails. Every value must be a potential source, a target or a
  discretization (\<open>TypeError\<close>), then every string key a valid identifier
  (\<open>ValueError\<close>).
\<close>

definition is_str_key_invalid :: "tag \<Rightarrow> bool" where
  "is_str_key_invalid name =
     (case name of Str s \<Rightarrow> \<not> is_valid_identifier s | _ \<Rightarrow> False)"

definition init_validate :: "('k, 'v) heap \<Rightarrow> places_val \<Rightarrow> error + nat" where
  "init_validate h pv =
     (case pv of
        RawObject g \<Rightarrow> Inl AttributeError
      | DictRef a \<Rightarrow>
          (case places_at h a of
             None \<Rightarrow> Inl AttributeError
           | Some d \<Rightarrow>
               (if list_ex (\<lambda>p. kind p = OtherObject) (dict_values d) then Inl TypeError
                else if list_ex is_str_key_invalid (dict_keys d) then Inl ValueError
                else Inr a)))"

definition GeometryCollection_init ::
    "('k, 'v) heap \<Rightarrow> places_arg \<Rightarrow> auto_where_arg
      \<Rightarrow> (error + GeometryCollection) \<times> ('k, 'v) heap" where
  "GeometryCollection_init h arg auto_where_hint =
     (let (h1, p) = alloc h (PlacesDict []);
          (h2, c) = alloc h1 (CachesDict [])
      in case prepare_auto_where auto_where_hint None of
           Inl e \<Rightarrow> (Inl e, h2)
         | Inr (auto_source, auto_target) \<Rightarrow>
             (case init_dispatch1 h2 p arg auto_source auto_target of
                (Inl e, h3) \<Rightarrow> (Inl e, h3)
              | (Inr (auto_source', auto_target'), h3) \<Rightarrow>
                  (case init_dispatch2 h3 p arg auto_source' auto_target' of
                     (Inl e, h4) \<Rightarrow> (Inl e, h4)
                   | (Inr pv, h4) \<Rightarrow>
                       (case init_validate h4 pv of
                          Inl e \<Rightarrow> (Inl e, h4)
                        | Inr a \<Rightarrow>
                            (Inr \<lparr>places = a, caches = c,
                                  auto_where = (auto_source', auto_target')\<rparr>, h4)))))"

subsection \<open>Properties and methods\<close>

text \<open>
  \<open>pytools.single_valued\<close>: the first entry of a non-empty sequence, after asserting
  that the others equal it; \<open>ValueError\<close> on an empty sequence.
\<close>

definition single_valued :: "'a list \<Rightarrow> error + 'a" where
  "single_valued xs =
     (case xs of
        [] \<Rightarrow> Inl ValueError
      | first_item # others \<Rightarrow>
          (if list_all (\<lambda>other_item. other_item = first_item) others then Inr first_item
           else Inl AssertionError))"

text \<open>The property \<open>GeometryCollection.ambient_dim\<close>, computed when it is read.\<close>

definition GeometryCollection_ambient_dim ::
    "('k, 'v) heap \<Rightarrow> GeometryCollection \<Rightarrow> error + nat" where
  "GeometryCollection_ambient_dim h self =
     (case places_at h (places self) of
        None \<Rightarrow> Inl AttributeError
      | Some d \<Rightarrow> single_valued (map ambient_dim (dict_values d)))"

definition get_geometry ::
    "('k, 'v) heap \<Rightarrow> GeometryCollection \<Rightarrow> tag \<Rightarrow> error + geometry_object" where
  "get_geometry h self name =
     (case places_at h (places self) of
        None \<Rightarrow> Inl TypeError
      | Some d \<Rightarrow> (case map_of d name of Some g \<Rightarrow> Inr g | None \<Rightarrow> Inl KeyError))"

text \<open>
  \<open>get_cache(name)\<close> is \<open>self.caches.setdefault(name, {})\<close>, here on the contents of a
  dictionary of caches: the cache found or a new empty one, and the dictionary after
  the call.
\<close>

definition get_cache ::
    "(string \<times> ('k \<times> 'v) list) list \<Rightarrow> string
      \<Rightarrow> ('k \<times> 'v) list \<times> (string \<times> ('k \<times> 'v) list) list" where
  "get_cache cs name =
     (case map_of cs name of
        Some c \<Rightarrow> (c, cs)
      | None \<Rightarrow> ([], dict_setitem name [] cs))"

text \<open>
  \<open>copy(places=None, auto_where=None)\<close>: the constructor, run on a copy of the places
  dictionary and on the collection's own \<open>auto_where\<close> pair unless one is given.
\<close>

definition GeometryCollection_copy ::
    "('k, 'v) heap \<Rightarrow> GeometryCollection \<Rightarrow> nat option \<Rightarrow> auto_where_arg option
      \<Rightarrow> (error + GeometryCollection) \<times> ('k, 'v) heap" where
  "GeometryCollection_copy h self places_opt auto_where_opt =
     (let src = (case places_opt of None \<Rightarrow> places self | Some a \<Rightarrow> a)
      in case places_at h src of
           None \<Rightarrow> (Inl AttributeError, h)
         | Some d \<Rightarrow>
             (let (h1, a) = alloc h (PlacesDict d)
              in GeometryCollection_init h1 (Mapping a)
                   (case auto_where_opt of
                      None \<Rightarrow> AW_Seq [PyDesc (fst (auto_where self)),
                                       PyDesc (snd (auto_where self))]
                    | Some aw \<Rightarrow> aw)))"

text \<open>
  \<open>merge(places)\<close>, for a dictionary or a collection as argument. An empty dictionary
  is false in \<open>if places:\<close>; a collection is always true.
\<close>

datatype merge_arg = MergeDict nat | MergeCollection GeometryCollection

definition GeometryCollection_merge ::
    "('k, 'v) heap \<Rightarrow> GeometryCollection \<Rightarrow> merge_arg
      \<Rightarrow> (error + GeometryCollection) \<times> ('k, 'v) heap" where
  "GeometryCollection_merge h self arg =
     (case places_at h (places self) of
        None \<Rightarrow> (Inl AttributeError, h)
      | Some d \<Rightarrow>
          (let (h1, new_places) = alloc h (PlacesDict d);
               other = (case arg of MergeDict a \<Rightarrow> a | MergeCollection g \<Rightarrow> places g)
           in case places_at h1 other of
                None \<Rightarrow> (Inl TypeError, h1)
              | Some e \<Rightarrow>
                  (let truthy = (case arg of MergeDict a \<Rightarrow> e \<noteq> []
                                 | MergeCollection g \<Rightarrow> True)
                   in GeometryCollection_copy
                        (if truthy then h1[new_places := PlacesDict (dict_update d e)] else h1)
                        self (Some new_places) None)))"

text \<open>
  The first step of \<open>_prepare_expr(places, expr, auto_where=None)\<close>:
  \<open>_prepare_auto_where(auto_where, places=places)\<close>, with the collection at hand. The
  pair it returns is what the tagger receives as default source and target.
\<close>

definition prepare_expr_auto_where ::
    "GeometryCollection \<Rightarrow> auto_where_arg \<Rightarrow> error + (DOFDescriptor \<times> DOFDescriptor)" where
  "prepare_expr_auto_where places_coll auto_where_hint =
     prepare_auto_where auto_where_hint (Some (auto_where places_coll))"

text \<open>
  What the two validation loops of the constructor accept: no value of an unsupported
  class, no string key that is not an identifier.
\<close>

definition valid_places :: "(tag \<times> geometry_object) list \<Rightarrow> bool" where
  "valid_places d \<longleftrightarrow>
     \<not> list_ex (\<lambda>p. kind p = OtherObject) (dict_values d)
     \<and> \<not> list_ex is_str_key_invalid (dict_keys d)"

section \<open>execution.py: the linear-operator adapter\<close>

subsection \<open>Arrays\<close>

text \<open>
  A flat vector lives on the host (\<open>numpy.ndarray\<close>) or on the device
  (\<open>pyopencl.array.Array\<close>); an object array holds several device vectors.
\<close>

datatype 'a pyarray = HostArray "'a list" | DeviceArray "'a list" | ObjArray "'a list list"

text \<open>
  \<open>x[start:end]\<close> on a flat vector; out-of-range bounds are clamped, as Python slices
  are.
\<close>

definition slice :: "'a list \<Rightarrow> nat \<Rightarrow> nat \<Rightarrow> 'a list" where
  "slice xs start end = take (end - start) (drop start xs)"

text \<open>
  \<open>joined[start:end] = res_i\<close> on a device vector: the value must have the shape of
  the slice, otherwise the assignment raises.
\<close>

definition setslice :: "'a list \<Rightarrow> nat \<Rightarrow> nat \<Rightarrow> 'a list \<Rightarrow> error + 'a list" where
  "setslice joined start end res_i =
     (if length res_i = length (slice joined start end)
      then Inr (take start joined @ res_i @ drop (start + length res_i) joined)
      else Inl ValueError)"

subsection \<open>\<open>_prepare_domains\<close> and \<open>BoundExpression.scipy_op\<close>\<close>

datatype domains_arg = DomainsNone | DomainsScalar pyobj | DomainsSeq "pyobj list"

fun as_dofdesc_all :: "pyobj list \<Rightarrow> error + DOFDescriptor list" where
  "as_dofdesc_all [] = Inr []"
| "as_dofdesc_all (d # ds) =
     (case as_dofdesc d of
        Inl e \<Rightarrow> Inl e
      | Inr dd \<Rightarrow> (case as_dofdesc_all ds of Inl e \<Rightarrow> Inl e | Inr dds \<Rightarrow> Inr (dd # dds)))"

text \<open>
  \<open>_prepare_domains(nresults, places, domains, default_domain)\<close>: the default or a
  scalar is repeated as it is; the entries of a list are passed through
  \<open>as_dofdesc\<close>, and the length is asserted. The first test is \<open>domains is None\<close>,
  so the object \<open>None\<close> never counts as a scalar.
\<close>

definition prepare_domains :: "nat \<Rightarrow> domains_arg \<Rightarrow> pyobj \<Rightarrow> error + pyobj list" where
  "prepare_domains nresults domains default_domain =
     (case domains of
        DomainsNone \<Rightarrow> Inr (replicate nresults default_domain)
      | DomainsScalar dom_name \<Rightarrow>
          (if dom_name = PyNone then Inr (replicate nresults default_domain)
           else Inr (replicate nresults dom_name))
      | DomainsSeq ds \<Rightarrow>
          (case as_dofdesc_all ds of
             Inl e \<Rightarrow> Inl e
           | Inr dds \<Rightarrow>
               (if length dds = nresults then Inr (map PyDesc dds) else Inl AssertionError)))"

text \<open>
  The size of one domain in the loop of \<open>scipy_op\<close>: 1 for \<open>None\<close>, otherwise the
  node count of the discretization that \<open>get_discretization(dom_name.geometry,
  dom_name.discr_stage)\<close> returns. The two arguments are evaluated first, in this order.
  The resolution of a discretization and its node count belong to collaborators, so
  they are the parameter \<open>nnodes_of\<close>. A string, a class, a domain specifier or any
  other object has no attribute \<open>geometry\<close> either.
\<close>

definition domain_size ::
    "(tag \<Rightarrow> domain_class option \<Rightarrow> error + nat) \<Rightarrow> pyobj \<Rightarrow> error + nat" where
  "domain_size nnodes_of dom_name =
     (case dom_name of
        PyNone \<Rightarrow> Inr 1
      | PyDesc dd \<Rightarrow>
          (case geometry dd of
             Inl e \<Rightarrow> Inl e
           | Inr geometry_name \<Rightarrow>
               (case discr_stage dd of
                  Inl e \<Rightarrow> Inl e
                | Inr stage \<Rightarrow> nnodes_of geometry_name stage))
      | _ \<Rightarrow> Inl AttributeError)"

text \<open>
  The loop \<open>for dom_name in domains\<close>, with the running \<open>total_dofs\<close> and the list
  \<open>starts_and_ends\<close> as state.
\<close>

fun starts_and_ends_loop ::
    "(tag \<Rightarrow> domain_class option \<Rightarrow> error + nat) \<Rightarrow> pyobj list \<Rightarrow> nat \<Rightarrow> (nat \<times> nat) list
      \<Rightarrow> error + (nat \<times> (nat \<times> nat) list)" where
  "starts_and_ends_loop nnodes_of [] total_dofs starts_and_ends =
     Inr (total_dofs, starts_and_ends)"
| "starts_and_ends_loop nnodes_of (dom_name # domains) total_dofs starts_and_ends =
     (case domain_size nnodes_of dom_name of
        Inl e \<Rightarrow> Inl e
      | Inr sz \<Rightarrow>
          starts_and_ends_loop nnodes_of domains (total_dofs + sz)
            (starts_and_ends @ [(total_dofs, total_dofs + sz)]))"

text \<open>
  The adapter object. \<open>bound_expr\<close> is the call \<open>self.bound_expr(self.queue, **args)\<close>
  as a function of the keyword arguments; the queue is left out.
\<close>

record ('a, 'd) MatVecOp =
  bound_expr :: "(string \<times> 'a pyarray) list \<Rightarrow> error + 'a pyarray"
  arg_name :: string
  dtype :: 'd
  total_dofs :: nat
  starts_and_ends :: "(nat \<times> nat) list"
  extra_args :: "(string \<times> 'a pyarray) list"

text \<open>
  \<open>scipy_op(self, queue, arg_name, dtype, domains=None, **extra_args)\<close>. Of
  \<open>self\<close> the model has the call of the bound expression, the number of results of its
  code and the \<open>auto_target\<close> of its collection.
\<close>

definition scipy_op ::
    "(tag \<Rightarrow> domain_class option \<Rightarrow> error + nat)
      \<Rightarrow> ((string \<times> 'a pyarray) list \<Rightarrow> error + 'a pyarray)
      \<Rightarrow> nat \<Rightarrow> DOFDescriptor \<Rightarrow> string \<Rightarrow> 'd \<Rightarrow> domains_arg
      \<Rightarrow> (string \<times> 'a pyarray) list \<Rightarrow> error + ('a, 'd) MatVecOp" where
  "scipy_op nnodes_of self_call nresults places_auto_target arg dtype' domains extra =
     (case prepare_domains nresults domains (PyDesc places_auto_target) of
        Inl e \<Rightarrow> Inl e
      | Inr doms \<Rightarrow>
          (case starts_and_ends_loop nnodes_of doms 0 [] of
             Inl e \<Rightarrow> Inl e
           | Inr (total_dofs', starts_and_ends') \<Rightarrow>
               Inr \<lparr>bound_expr = self_call, arg_name = arg, dtype = dtype',
                     total_dofs = total_dofs', starts_and_ends = starts_and_ends',
                     extra_args = extra\<rparr>))"

subsection \<open>\<open>MatVecOp.matvec\<close>\<close>

text \<open>The split \<open>[x[start:end] for start, end in self.starts_and_ends]\<close>.\<close>

definition segments :: "'a list \<Rightarrow> (nat \<times> nat) list \<Rightarrow> 'a list list" where
  "segments xs sae = map (\<lambda>(start, end). slice xs start end) sae"

text \<open>
  A contiguous offset table: \<open>(start, end)\<close> pairs in declaration order, the first
  starting at the given offset, each as long as the size of its domain and starting
  where the one before it ends.
\<close>

fun table_from :: "nat \<Rightarrow> nat list \<Rightarrow> (nat \<times> nat) list" where
  "table_from k [] = []"
| "table_from k (s # sizes) = (k, k + s) # table_from (k + s) sizes"

text \<open>
  The loop \<open>for res_i, (start, end) in zip(result, self.starts_and_ends)\<close> that writes
  the pieces into \<open>joined_result\<close>. The target is a vector of the operator's dtype.
  The assignment \<open>joined_result[start:end] = res_i\<close> first compares the shapes and
  then copies the piece into the target; what the copy stores belongs to the array
  library, and is the parameter \<open>convert\<close>: the entries of the piece converted to
  the dtype of the target, or the exception with which the library refuses to copy
  between the two dtypes.
\<close>

fun join_loop ::
    "('a list \<Rightarrow> error + 'a list) \<Rightarrow> 'a list \<Rightarrow> ('a list \<times> nat \<times> nat) list
      \<Rightarrow> error + 'a list" where
  "join_loop convert joined_result [] = Inr joined_result"
| "join_loop convert joined_result ((res_i, start, end) # rest) =
     (if length res_i \<noteq> length (slice joined_result start end) then Inl ValueError
      else
        (case convert res_i of
           Inl e \<Rightarrow> Inl e
         | Inr stored \<Rightarrow>
             (case setslice joined_result start end stored of
                Inl e \<Rightarrow> Inl e
              | Inr joined_result' \<Rightarrow> join_loop convert joined_result' rest)))"

text \<open>
  \<open>matvec(x)\<close>. \<open>cl.array.empty(self.queue, self.total_dofs, self.dtype)\<close> returns
  a vector of the operator's dtype with arbitrary contents: \<open>garbage\<close> gives the
  content of each fresh cell, and \<open>convert d\<close> is the copy of a piece into a vector
  of dtype \<open>d\<close>. A host object array cannot be sent to the device, and an object
  array has no \<open>get\<close>. With several domains the wrapped expression is given an
  object array and its result is iterated as one; a single flat vector as result is
  outside this model (\<open>TypeError\<close>). With a single domain the result of the wrapped
  expression is returned as it is.
\<close>

definition matvec ::
    "(nat \<Rightarrow> 'a) \<Rightarrow> ('d \<Rightarrow> 'a list \<Rightarrow> error + 'a list) \<Rightarrow> ('a, 'd) MatVecOp \<Rightarrow> 'a pyarray
      \<Rightarrow> error + 'a pyarray" where
  "matvec garbage convert self x =
     (case (case x of
              HostArray xs \<Rightarrow> Inr (xs, True)
            | DeviceArray xs \<Rightarrow> Inr (xs, False)
            | ObjArray xss \<Rightarrow> Inl TypeError) of
        Inl e \<Rightarrow> Inl e
      | Inr (xs, out_host) \<Rightarrow>
          (let do_split = (length (starts_and_ends self) > 1);
               x' = (if do_split
                     then ObjArray (segments xs (starts_and_ends self))
                     else DeviceArray xs);
               args = dict_setitem (arg_name self) x' (extra_args self)
           in case bound_expr self args of
                Inl e \<Rightarrow> Inl e
              | Inr result \<Rightarrow>
                  (case (if do_split then
                           (case result of
                              ObjArray pieces \<Rightarrow>
                                (case join_loop (convert (dtype self))
                                        (map garbage [0..<total_dofs self])
                                        (zip pieces (starts_and_ends self)) of
                                   Inl e \<Rightarrow> Inl e
                                 | Inr joined_result \<Rightarrow> Inr (DeviceArray joined_result))
                            | _ \<Rightarrow> Inl TypeError)
                         else Inr result) of
                     Inl e \<Rightarrow> Inl e
                   | Inr result' \<Rightarrow>
                       (if out_host then
                          (case result' of
                             DeviceArray ys \<Rightarrow> Inr (HostArray ys)
                           | _ \<Rightarrow> Inl AttributeError)
                        else Inr result'))))"


section \<open>execution.py: elementwise reductions\<close>

text \<open>
  One element group of a discretization, with what the views read: the element count,
  the nodes per element, and the offsets of the group in the flat node vector and in the
  global element numbering (the latter from the mesh group).
\<close>

record element_group =
  nelements :: nat
  nunit_nodes :: nat
  node_nr_base :: nat
  element_nr_base :: nat

record discretization =
  groups :: "element_group list"
  nnodes :: nat
  mesh_nelements :: nat

text \<open>
  The offsets of consecutive groups are cumulative: each group starts where the one
  before it ends.
\<close>

fun cumulative ::
    "(element_group \<Rightarrow> nat) \<Rightarrow> (element_group \<Rightarrow> nat) \<Rightarrow> nat \<Rightarrow> element_group list \<Rightarrow> bool" where
  "cumulative base sz b [] = True"
| "cumulative base sz b (g # gs) = (base g = b \<and> cumulative base sz (b + sz g) gs)"

definition group_nnodes :: "element_group \<Rightarrow> nat" where
  "group_nnodes g = nelements g * nunit_nodes g"

definition wf_discretization :: "discretization \<Rightarrow> bool" where
  "wf_discretization discr \<longleftrightarrow>
     cumulative node_nr_base group_nnodes 0 (groups discr)
     \<and> cumulative element_nr_base nelements 0 (groups discr)
     \<and> nnodes discr = sum_list (map group_nnodes (groups discr))
     \<and> mesh_nelements discr = sum_list (map nelements (groups discr))"

text \<open>
  \<open>group.view(global_array)\<close>: the nodes of the group, reshaped to one row per element.
  The reshape fails when the slice does not have \<open>nelements * nunit_nodes\<close> entries.
\<close>

definition group_view :: "element_group \<Rightarrow> 'a list \<Rightarrow> error + 'a list list" where
  "group_view g global_array =
     (let s = slice global_array (node_nr_base g) (node_nr_base g + group_nnodes g)
      in if length s = group_nnodes g
         then Inr (map (\<lambda>el. slice s (el * nunit_nodes g) (el * nunit_nodes g + nunit_nodes g))
                     [0..<nelements g])
         else Inl ValueError)"

text \<open>The rows that \<open>group_view\<close> returns when the reshape succeeds.\<close>

definition rows :: "element_group \<Rightarrow> 'a list \<Rightarrow> 'a list list" where
  "rows g xs =
     map (\<lambda>el. slice (slice xs (node_nr_base g) (node_nr_base g + group_nnodes g))
                 (el * nunit_nodes g) (el * nunit_nodes g + nunit_nodes g))
       [0..<nelements g]"

text \<open>
  \<open>mesh_el_view(mesh, group_nr, global_array)\<close> for a flat per-element vector: the
  entries of the group's elements, by global element number.
\<close>

definition mesh_el_view :: "element_group \<Rightarrow> 'a list \<Rightarrow> error + 'a list" where
  "mesh_el_view g global_array =
     (let s = slice global_array (element_nr_base g) (element_nr_base g + nelements g)
      in if length s = nelements g then Inr s else Inl ValueError)"

text \<open>
  The two kernels, on the rows of one group, with the reduction over the nodes of one
  element as parameter \<open>red\<close>: \<open>result[el, idof] = red(jdof, operand[el, jdof])\<close> and
  \<open>result[el] = red(jdof, operand[el, jdof])\<close>. The output is given in the flat order
  of the view it is written to.
\<close>

definition node_knl :: "('a list \<Rightarrow> 'a) \<Rightarrow> 'a list list \<Rightarrow> 'a list" where
  "node_knl red operand_rows = concat (map (\<lambda>row. replicate (length row) (red row)) operand_rows)"

definition element_knl :: "('a list \<Rightarrow> 'a) \<Rightarrow> 'a list list \<Rightarrow> 'a list" where
  "element_knl red operand_rows = map red operand_rows"

text \<open>
  The loop of \<open>_reduce\<close> over the groups: the kernel reads the group's view of the
  operand and writes through the group's view of the result, given by its bounds in the
  flat result.
\<close>

fun reduce_loop ::
    "('a list list \<Rightarrow> 'a list) \<Rightarrow> (element_group \<Rightarrow> nat \<times> nat) \<Rightarrow> 'a list
      \<Rightarrow> element_group list \<Rightarrow> 'a list \<Rightarrow> error + 'a list" where
  "reduce_loop knl view operand [] result = Inr result"
| "reduce_loop knl view operand (g # gs) result =
     (case group_view g operand of
        Inl e \<Rightarrow> Inl e
      | Inr operand_rows \<Rightarrow>
          (case setslice result (fst (view g)) (snd (view g)) (knl operand_rows) of
             Inl e \<Rightarrow> Inl e
           | Inr result' \<Rightarrow> reduce_loop knl view operand gs result'))"

text \<open>\<open>_reduce(nresult, knl, view)\<close>, starting from \<open>cl.array.empty\<close>.\<close>

definition reduce_groups ::
    "(nat \<Rightarrow> 'a) \<Rightarrow> discretization \<Rightarrow> 'a list \<Rightarrow> nat \<Rightarrow> ('a list list \<Rightarrow> 'a list)
      \<Rightarrow> (element_group \<Rightarrow> nat \<times> nat) \<Rightarrow> error + 'a list" where
  "reduce_groups garbage discr operand nresult knl view =
     reduce_loop knl view operand (groups discr) (map garbage [0..<nresult])"

text \<open>
  An elementwise reduction node (\<open>ElementwiseSum\<close>, \<open>ElementwiseMin\<close>,
  \<open>ElementwiseMax\<close>): the class \<open>SingleScalarOperandExpressionWithWhere\<close> gives it
  the attributes \<open>operand\<close> and \<open>where\<close>.
\<close>

record 'e elementwise_expr =
  operand :: 'e
  where_spec :: pyobj

text \<open>
  \<open>expr.dofdesc\<close> on such a node: the node classes set \<open>operand\<close> and \<open>where\<close>
  only, and neither they nor the expression base class provide other attributes on
  demand, so the lookup raises \<open>AttributeError\<close>.
\<close>

definition elementwise_dofdesc :: "'e elementwise_expr \<Rightarrow> error + DOFDescriptor" where
  "elementwise_dofdesc expr = Inl AttributeError"

text \<open>
  \<open>_map_elementwise_reduction(reduction_name, expr)\<close>, statement by statement: the
  discretization is looked up under \<open>expr.dofdesc.geometry\<close> and
  \<open>expr.dofdesc.discr_stage\<close>, the operand is evaluated, its shape is asserted, and
  the granularity \<open>expr.dofdesc.granularity\<close> is compared with
  \<open>sym.GRANULARITY_NODE\<close>, then with \<open>sym.GRANULARITY_ELEMENT\<close>. The
  collaborators are parameters: \<open>get_discretization\<close> of the collection, the
  evaluation \<open>rec\<close> of the operand to a flat device vector, and the reduction that the
  generated kernel performs for a reduction name.
\<close>

definition map_elementwise_reduction ::
    "(nat \<Rightarrow> 'a) \<Rightarrow> (string \<Rightarrow> 'a list \<Rightarrow> 'a)
      \<Rightarrow> (tag \<Rightarrow> domain_class option \<Rightarrow> error + discretization)
      \<Rightarrow> ('e \<Rightarrow> error + 'a list)
      \<Rightarrow> string \<Rightarrow> 'e elementwise_expr \<Rightarrow> error + 'a list" where
  "map_elementwise_reduction garbage reduction get_discretization rec_operand reduction_name expr =
     (case elementwise_dofdesc expr of
        Inl e \<Rightarrow> Inl e
      | Inr dd \<Rightarrow>
     (case geometry dd of
        Inl e \<Rightarrow> Inl e
      | Inr geometry_name \<Rightarrow>
     (case discr_stage dd of
        Inl e \<Rightarrow> Inl e
      | Inr stage \<Rightarrow>
     (case get_discretization geometry_name stage of
        Inl e \<Rightarrow> Inl e
      | Inr discr \<Rightarrow>
     (case rec_operand (operand expr) of
        Inl e \<Rightarrow> Inl e
      | Inr operand_vec \<Rightarrow>
          (if length operand_vec \<noteq> nnodes discr then Inl AssertionError
           else
             (case GRANULARITY_NODE of
                Inl e \<Rightarrow> Inl e
              | Inr node \<Rightarrow>
                  (if granularity dd = node then
                     reduce_groups garbage discr operand_vec (nnodes discr)
                       (node_knl (reduction reduction_name))
                       (\<lambda>g. (node_nr_base g, node_nr_base g + group_nnodes g))
                   else
                     (case GRANULARITY_ELEMENT of
                        Inl e \<Rightarrow> Inl e
                      | Inr element \<Rightarrow>
                          (if granularity dd = element then
                             reduce_groups garbage discr operand_vec (mesh_nelements discr)
                               (element_knl (reduction reduction_name))
                               (\<lambda>g. (element_nr_base g, element_nr_base g + nelements g))
                           else Inl ValueError))))))))))"

text \<open>The three mapper methods.\<close>

definition map_elementwise_sum ::
    "(nat \<Rightarrow> 'a) \<Rightarrow> (string \<Rightarrow> 'a list \<Rightarrow> 'a)
      \<Rightarrow> (tag \<Rightarrow> domain_class option \<Rightarrow> error + discretization)
      \<Rightarrow> ('e \<Rightarrow> error + 'a list) \<Rightarrow> 'e elementwise_expr \<Rightarrow> error + 'a list" where
  "map_elementwise_sum garbage reduction get_discretization rec_operand expr =
     map_elementwise_reduction garbage reduction get_discretization rec_operand ''sum'' expr"

definition map_elementwise_min ::
    "(nat \<Rightarrow> 'a) \<Rightarrow> (string \<Rightarrow> 'a list \<Rightarrow> 'a)
      \<Rightarrow> (tag \<Rightarrow> domain_class option \<Rightarrow> error + discretization)
      \<Rightarrow> ('e \<Rightarrow> error + 'a list) \<Rightarrow> 'e elementwise_expr \<Rightarrow> error + 'a list" where
  "map_elementwise_min garbage reduction get_discretization rec_operand expr =
     map_elementwise_reduction garbage reduction get_discretization rec_operand ''min'' expr"

definition map_elementwise_max ::
    "(nat \<Rightarrow> 'a) \<Rightarrow> (string \<Rightarrow> 'a list \<Rightarrow> 'a)
      \<Rightarrow> (tag \<Rightarrow> domain_class option \<Rightarrow> error + discretization)
      \<Rightarrow> ('e \<Rightarrow> error + 'a list) \<Rightarrow> 'e elementwise_expr \<Rightarrow> error + 'a list" where
  "map_elementwise_max garbage reduction get_discretization rec_operand expr =
     map_elementwise_reduction garbage reduction get_discretization rec_operand ''max'' expr"

section \<open>execution.py: the evaluation mapper on cached nodes\<close>

subsection \<open>Expressions, the mapper and the caches\<close>

text \<open>
  The scopes of a common subexpression: the three of \<open>pymbolic\<close> and
  \<open>DISCRETIZATION\<close>, which \<open>primitives.py\<close> adds.
\<close>

datatype cse_scope = EVALUATION | EXPRESSION | GLOBAL | DISCRETIZATION

text \<open>
  The expression nodes the two cached mapper methods are about, and what they recurse
  into: a variable, looked up in the context; any node whose value is computed from the
  values of its children (\<open>Call\<close>, which stands for the arithmetic and function nodes
  of the inherited evaluator); a common subexpression with its child and scope; and an
  iterative inverse with the five attributes that its class sets: \<open>expression\<close>,
  \<open>rhs\<close>, \<open>variable_name\<close>, \<open>extra_vars\<close> and \<open>where\<close>.
\<close>

datatype expr =
    Variable string
  | Call string "expr list"
  | CommonSubexpression expr cse_scope
  | IterativeInverse expr expr string "(string \<times> expr) list" pyobj

text \<open>
  \<open>expr.dofdesc\<close> on a node: no node class sets or defines an attribute of this
  name, and the expression base class does not provide attributes on demand, so the
  lookup raises \<open>AttributeError\<close>.
\<close>

definition expr_dofdesc :: "expr \<Rightarrow> error + DOFDescriptor" where
  "expr_dofdesc e = Inl AttributeError"

text \<open>
  What one evaluation is given: the context of variable values and the collaborators.
  \<open>apply_call\<close> computes the value of a \<open>Call\<close> node from the values of its
  children; \<open>has_geometry\<close> tells whether \<open>get_geometry\<close> finds a name in the
  collection; \<open>scipy_op_call\<close> is the body of \<open>bound_op.scipy_op\<close> for a
  sub-operator, with the variable name and the descriptor as positional arguments and
  the evaluated extra variables as keyword arguments; \<open>gmres\<close> is the Krylov solve,
  which returns the solution or raises the solver's failure.
\<close>

record ('v, 'l) mapper =
  eval_context :: "(string \<times> 'v) list"
  apply_call :: "string \<Rightarrow> 'v list \<Rightarrow> error + 'v"
  has_geometry :: "tag \<Rightarrow> bool"
  scipy_op_call :: "'v \<Rightarrow> string \<Rightarrow> DOFDescriptor \<Rightarrow> (string \<times> 'v) list \<Rightarrow> error + 'l"
  gmres :: "'l \<Rightarrow> 'v \<Rightarrow> error + 'v"

text \<open>
  What outlives one evaluation: the named caches of the bound expression
  (\<open>self.bound_expr.caches\<close>) and those of the geometry collection
  (\<open>self.places.caches\<close>), which every bound expression over that collection shares.
  \<open>cse_runs\<close> is a record for the proofs only. It receives one entry for each run of
  the computation of a cached common subexpression, that is, for each call
  \<open>self.rec(expr.child)\<close> in the \<open>except KeyError\<close> branch, when the call ends: the
  scope, the key, and whether the call returned a value (\<open>True\<close>) or raised
  (\<open>False\<close>).
\<close>

record 'v eval_state =
  bound_expr_caches :: "(string \<times> (expr \<times> 'v) list) list"
  places_caches :: "(string \<times> (expr \<times> 'v) list) list"
  cse_runs :: "(cse_scope \<times> expr \<times> bool) list"

text \<open>
  The contents of a named cache (a cache that was never asked for is empty), and
  \<open>cache[k] = v\<close> on the dictionary that \<open>get_cache(name)\<close> returned.
\<close>

definition cache_named :: "(string \<times> (expr \<times> 'v) list) list \<Rightarrow> string \<Rightarrow> (expr \<times> 'v) list" where
  "cache_named cs name = (case map_of cs name of Some c \<Rightarrow> c | None \<Rightarrow> [])"

definition cache_store ::
    "(string \<times> (expr \<times> 'v) list) list \<Rightarrow> string \<Rightarrow> expr \<Rightarrow> 'v
      \<Rightarrow> (string \<times> (expr \<times> 'v) list) list" where
  "cache_store cs name k v = dict_setitem name (dict_setitem k v (cache_named cs name)) cs"

text \<open>
  \<open>BoundExpression.scipy_op(self, queue, arg_name, dtype, domains=None, **extra_args)\<close>
  is called as \<open>scipy_op(expr.variable_name, expr.dofdesc, **kwargs)\<close>: the two
  positional arguments fill \<open>queue\<close> and \<open>arg_name\<close>, so the call is well-formed
  only when the keywords supply \<open>dtype\<close> and do not name \<open>queue\<close> or
  \<open>arg_name\<close> again; otherwise Python raises \<open>TypeError\<close>.
\<close>

definition bind_kwargs_ok :: "(string \<times> 'v) list \<Rightarrow> bool" where
  "bind_kwargs_ok kwargs \<longleftrightarrow>
     map_of kwargs ''dtype'' \<noteq> None \<and> map_of kwargs ''queue'' = None
     \<and> map_of kwargs ''arg_name'' = None"

subsection \<open>\<open>rec\<close>, \<open>map_common_subexpression\<close> and \<open>map_inverse\<close>\<close>

text \<open>
  The mapper's recursion \<open>self.rec\<close>, with the state threaded through. An exception
  leaves the caches as they are at that moment.

  \<open>map_common_subexpression\<close>: the cache is that of the bound expression for the
  scope \<open>EXPRESSION\<close>, that of the collection for \<open>DISCRETIZATION\<close>, and there is
  none for any other scope. The child is looked up; on a \<open>KeyError\<close> it is evaluated
  and the value is stored. When the evaluation of the child raises, the exception
  leaves the method and nothing is stored.

  \<open>map_inverse\<close>: the cache is \<open>self.bound_expr.places.get_cache("bound_op")\<close>, a
  cache of the collection. When the expression is not in it, the arguments of the
  \<open>bind\<close> call are evaluated in order: \<open>expr.expression\<close>, then
  \<open>self.places.get_geometry(expr.dofdesc.geometry)\<close>, where \<open>get_geometry\<close>
  raises \<open>KeyError\<close> for an unknown name, then \<open>self.bound_expr.iprec\<close>, which
  raises \<open>AttributeError\<close> since \<open>BoundExpression\<close> has the attributes
  \<open>places\<close>, \<open>sym_op_expr\<close>, \<open>caches\<close> and \<open>code\<close> only; \<open>bind\<close> and the
  assignment to the cache are not reached. With a sub-operator from the cache, the
  positional arguments \<open>expr.variable_name\<close> and \<open>expr.dofdesc\<close> of the
  \<open>scipy_op\<close> call are evaluated, then the extra variables; \<open>scipy_op\<close> is called,
  the right-hand side is evaluated and \<open>gmres\<close> is run; nothing catches what it
  raises.
\<close>

fun rec :: "('v, 'l) mapper \<Rightarrow> expr \<Rightarrow> 'v eval_state \<Rightarrow> (error + 'v) \<times> 'v eval_state"
and rec_children :: "('v, 'l) mapper \<Rightarrow> expr list \<Rightarrow> 'v eval_state
      \<Rightarrow> (error + 'v list) \<times> 'v eval_state"
and rec_kwargs :: "('v, 'l) mapper \<Rightarrow> (string \<times> expr) list \<Rightarrow> 'v eval_state
      \<Rightarrow> (error + (string \<times> 'v) list) \<times> 'v eval_state" where
  "rec P (Variable name) s =
     (case map_of (eval_context P) name of
        Some v \<Rightarrow> (Inr v, s)
      | None \<Rightarrow> (Inl UnknownVariableError, s))"
| "rec P (Call f parameters) s =
     (case rec_children P parameters s of
        (Inl e, s') \<Rightarrow> (Inl e, s')
      | (Inr vs, s') \<Rightarrow> (apply_call P f vs, s'))"
| "rec P (CommonSubexpression child scope) s =
     (if scope = EXPRESSION then
        (case get_cache (bound_expr_caches s) ''cse'' of
           (cache, cs) \<Rightarrow>
             (case map_of cache child of
                Some v \<Rightarrow> (Inr v, s\<lparr>bound_expr_caches := cs\<rparr>)
              | None \<Rightarrow>
                  (case rec P child (s\<lparr>bound_expr_caches := cs\<rparr>) of
                     (Inl e, s1) \<Rightarrow>
                       (Inl e, s1\<lparr>cse_runs := cse_runs s1 @ [(EXPRESSION, child, False)]\<rparr>)
                   | (Inr v, s1) \<Rightarrow>
                       (Inr v, s1\<lparr>bound_expr_caches :=
                                    cache_store (bound_expr_caches s1) ''cse'' child v,
                                  cse_runs := cse_runs s1 @ [(EXPRESSION, child, True)]\<rparr>))))
      else if scope = DISCRETIZATION then
        (case get_cache (places_caches s) ''cse'' of
           (cache, cs) \<Rightarrow>
             (case map_of cache child of
                Some v \<Rightarrow> (Inr v, s\<lparr>places_caches := cs\<rparr>)
              | None \<Rightarrow>
                  (case rec P child (s\<lparr>places_caches := cs\<rparr>) of
                     (Inl e, s1) \<Rightarrow>
                       (Inl e, s1\<lparr>cse_runs := cse_runs s1 @ [(DISCRETIZATION, child, False)]\<rparr>)
                   | (Inr v, s1) \<Rightarrow>
                       (Inr v, s1\<lparr>places_caches :=
                                    cache_store (places_caches s1) ''cse'' child v,
                                  cse_runs := cse_runs s1 @ [(DISCRETIZATION, child, True)]\<rparr>))))
      else rec P child s)"
| "rec P (IterativeInverse expression rhs variable_name extra_vars where') s =
     (case get_cache (places_caches s) ''bound_op'' of
        (bound_op_cache, cs) \<Rightarrow>
          (case (case map_of bound_op_cache
                        (IterativeInverse expression rhs variable_name extra_vars where') of
                   Some bound_op \<Rightarrow> Inr bound_op
                 | None \<Rightarrow>
                     (case expr_dofdesc
                             (IterativeInverse expression rhs variable_name extra_vars
                                where') of
                        Inl e \<Rightarrow> Inl e
                      | Inr dd \<Rightarrow>
                          (case geometry dd of
                             Inl e \<Rightarrow> Inl e
                           | Inr geometry_name \<Rightarrow>
                               (if has_geometry P geometry_name then Inl AttributeError
                                else Inl KeyError)))) of
             Inl e \<Rightarrow> (Inl e, s\<lparr>places_caches := cs\<rparr>)
           | Inr bound_op \<Rightarrow>
               (case expr_dofdesc
                       (IterativeInverse expression rhs variable_name extra_vars where') of
                  Inl e \<Rightarrow> (Inl e, s\<lparr>places_caches := cs\<rparr>)
                | Inr dd \<Rightarrow>
                    (case rec_kwargs P extra_vars (s\<lparr>places_caches := cs\<rparr>) of
                       (Inl e, s1) \<Rightarrow> (Inl e, s1)
                     | (Inr kwargs, s1) \<Rightarrow>
                         (if \<not> bind_kwargs_ok kwargs then (Inl TypeError, s1)
                          else
                            (case scipy_op_call P bound_op variable_name dd kwargs of
                               Inl e \<Rightarrow> (Inl e, s1)
                             | Inr linear_op \<Rightarrow>
                                 (case rec P rhs s1 of
                                    (Inl e, s2) \<Rightarrow> (Inl e, s2)
                                  | (Inr rhs_value, s2) \<Rightarrow>
                                      (gmres P linear_op rhs_value, s2))))))))"
| "rec_children P [] s = (Inr [], s)"
| "rec_children P (e # es) s =
     (case rec P e s of
        (Inl x, s') \<Rightarrow> (Inl x, s')
      | (Inr v, s') \<Rightarrow>
          (case rec_children P es s' of
             (Inl x, s'') \<Rightarrow> (Inl x, s'')
           | (Inr vs, s'') \<Rightarrow> (Inr (v # vs), s'')))"
| "rec_kwargs P [] s = (Inr [], s)"
| "rec_kwargs P ((var_name, var_expr) # rest) s =
     (case rec P var_expr s of
        (Inl x, s') \<Rightarrow> (Inl x, s')
      | (Inr v, s') \<Rightarrow>
          (case rec_kwargs P rest s' of
             (Inl x, s'') \<Rightarrow> (Inl x, s'')
           | (Inr kvs, s'') \<Rightarrow> (Inr ((var_name, v) # kvs), s'')))"

text \<open>
  Evaluating the same bound expression again and again, each time with its own context:
  the caches persist from one evaluation to the next.
\<close>

fun eval_many :: "(('v, 'l) mapper \<times> expr) list \<Rightarrow> 'v eval_state \<Rightarrow> 'v eval_state" where
  "eval_many [] s = s"
| "eval_many ((P, e) # runs) s = eval_many runs (snd (rec P e s))"

subsection \<open>Notions for the proofs\<close>

text \<open>The size of an expression: a child is smaller than its parent.\<close>

fun esize :: "expr \<Rightarrow> nat"
and esize_list :: "expr list \<Rightarrow> nat"
and esize_kwargs :: "(string \<times> expr) list \<Rightarrow> nat" where
  "esize (Variable name) = 1"
| "esize (Call f parameters) = Suc (esize_list parameters)"
| "esize (CommonSubexpression child scope) = Suc (esize child)"
| "esize (IterativeInverse expression rhs variable_name extra_vars where') =
     Suc (esize expression + esize rhs + esize_kwargs extra_vars)"
| "esize_list [] = 0"
| "esize_list (e # es) = esize e + esize_list es"
| "esize_kwargs [] = 0"
| "esize_kwargs ((var_name, var_expr) # rest) = esize var_expr + esize_kwargs rest"

text \<open>
  The two caches of common subexpressions and the two caches named \<open>bound_op\<close>, as
  maps.
\<close>

definition be_cse :: "'v eval_state \<Rightarrow> expr \<Rightarrow> 'v option" where
  "be_cse s = map_of (cache_named (bound_expr_caches s) ''cse'')"

definition pl_cse :: "'v eval_state \<Rightarrow> expr \<Rightarrow> 'v option" where
  "pl_cse s = map_of (cache_named (places_caches s) ''cse'')"

definition be_bound_op :: "'v eval_state \<Rightarrow> expr \<Rightarrow> 'v option" where
  "be_bound_op s = map_of (cache_named (bound_expr_caches s) ''bound_op'')"

definition pl_bound_op :: "'v eval_state \<Rightarrow> expr \<Rightarrow> 'v option" where
  "pl_bound_op s = map_of (cache_named (places_caches s) ''bound_op'')"

text \<open>Whether a (scope, key) pair is memoized in the cache of its scope.\<close>

definition cached :: "'v eval_state \<Rightarrow> cse_scope \<times> expr \<Rightarrow> bool" where
  "cached s x =
     (case x of (scope, k) \<Rightarrow>
        (if scope = EXPRESSION then be_cse s k \<noteq> None
         else if scope = DISCRETIZATION then pl_cse s k \<noteq> None
         else False))"

text \<open>The scope and key of a recorded run, and whether it returned a value.\<close>

definition run_key :: "cse_scope \<times> expr \<times> bool \<Rightarrow> cse_scope \<times> expr" where
  "run_key x = (fst x, fst (snd x))"

definition returned :: "cse_scope \<times> expr \<times> bool \<Rightarrow> bool" where
  "returned x = snd (snd x)"

text \<open>
  In a list of runs, a run that returned a value is the last run of its scope and key.
  So for each scope and key at most one run returned a value, and the computation was
  not started again after it.
\<close>

fun once :: "(cse_scope \<times> expr \<times> bool) list \<Rightarrow> bool" where
  "once [] = True"
| "once (x # xs) = ((returned x \<longrightarrow> (\<forall>y \<in> set xs. run_key y \<noteq> run_key x)) \<and> once xs)"

text \<open>
  What an evaluation of an expression of size at most \<open>n\<close> may do to the state: a
  cache of common subexpressions changes only at keys that were absent and are smaller
  than \<open>n\<close>; the caches named \<open>bound_op\<close> keep their contents; and the record of
  runs grows by runs of keys that were not memoized before, each run that returned a
  value being the last of its key and memoized afterwards.
\<close>

definition step :: "'v eval_state \<Rightarrow> 'v eval_state \<Rightarrow> nat \<Rightarrow> bool" where
  "step s s' n \<longleftrightarrow>
     (\<forall>k. be_cse s' k \<noteq> be_cse s k \<longrightarrow> be_cse s k = None \<and> esize k < n)
     \<and> (\<forall>k. pl_cse s' k \<noteq> pl_cse s k \<longrightarrow> pl_cse s k = None \<and> esize k < n)
     \<and> be_bound_op s' = be_bound_op s
     \<and> pl_bound_op s' = pl_bound_op s
     \<and> (\<exists>new. cse_runs s' = cse_runs s @ new \<and> once new
            \<and> (\<forall>x \<in> set new. \<not> cached s (run_key x)
                  \<and> (returned x \<longrightarrow> cached s' (run_key x))))"

text \<open>
  The runs recorded so far are in order: a run that returned a value is the last run of
  its scope and key, and its key is memoized.
\<close>

definition runs_memoized :: "'v eval_state \<Rightarrow> bool" where
  "runs_memoized s \<longleftrightarrow>
     once (cse_runs s) \<and> (\<forall>x \<in> set (cse_runs s). returned x \<longrightarrow> cached s (run_key x))"

section \<open>Descriptors: theorems\<close>

lemma DOMAIN_TAG_eq_iff: "DOMAIN_TAG_eq a b \<longleftrightarrow> a = b"
  by (cases a; cases b) (simp_all add: DOMAIN_TAG_eq_def)

lemma DOFDescriptor_eq_iff: "DOFDescriptor_eq a b \<longleftrightarrow> a = b"
  by (cases a, cases b) (simp add: DOFDescriptor_eq_def DOMAIN_TAG_eq_iff)

lemma DOFDescriptor_eq_fields:
  "DOFDescriptor_eq a b \<longleftrightarrow> domain a = domain b \<and> granularity a = granularity b"
  by (simp add: DOFDescriptor_eq_def DOMAIN_TAG_eq_iff)

lemma as_dofdesc_PyDesc: "as_dofdesc (PyDesc d) = Inr d"
  by (simp add: as_dofdesc_def)

lemma as_dofdesc_valid:
  "as_dofdesc (PyStr s) = Inr \<lparr>domain = DOMAIN_TAG (Str s), granularity = QBX_DOF_NODE\<rparr>"
  "as_dofdesc PyDEFAULT_SOURCE =
     Inr \<lparr>domain = DOMAIN_TAG DEFAULT_SOURCE, granularity = QBX_DOF_NODE\<rparr>"
  "as_dofdesc PyDEFAULT_TARGET =
     Inr \<lparr>domain = DOMAIN_TAG DEFAULT_TARGET, granularity = QBX_DOF_NODE\<rparr>"
  "as_dofdesc (PyDomain dt) = Inr \<lparr>domain = dt, granularity = QBX_DOF_NODE\<rparr>"
  by (simp_all add: as_dofdesc_def DOFDescriptor_init_def)

text \<open>
  Claim C9. Descriptor construction is idempotent under value equality. A descriptor, a
  string name and the two default tags are all accepted by \<open>as_dofdesc\<close>; whenever
  \<open>as_dofdesc x\<close> returns a descriptor \<open>d\<close>, applying \<open>as_dofdesc\<close> to \<open>d\<close> returns
  a descriptor that \<open>__eq__\<close> finds equal to \<open>d\<close>; and \<open>__eq__\<close> holds of two
  descriptors exactly when their domains and their granularities are equal.
\<close>

theorem as_dofdesc_idempotent:
  "(\<exists>d. as_dofdesc (PyDesc d0) = Inr d)
   \<and> (\<exists>d. as_dofdesc (PyStr s) = Inr d)
   \<and> (\<exists>d. as_dofdesc PyDEFAULT_SOURCE = Inr d)
   \<and> (\<exists>d. as_dofdesc PyDEFAULT_TARGET = Inr d)
   \<and> (as_dofdesc x = Inr d1 \<longrightarrow>
        (\<exists>d2. as_dofdesc (PyDesc d1) = Inr d2 \<and> DOFDescriptor_eq d2 d1))
   \<and> (DOFDescriptor_eq a b \<longleftrightarrow> domain a = domain b \<and> granularity a = granularity b)"
  by (simp add: as_dofdesc_valid as_dofdesc_PyDesc DOFDescriptor_eq_fields)

theorem as_dofdesc_idempotent_witness:
  "as_dofdesc (PyStr ''src'')
     = Inr \<lparr>domain = DOMAIN_TAG (Str ''src''), granularity = QBX_DOF_NODE\<rparr>
   \<and> (\<exists>d2. as_dofdesc
              (PyDesc \<lparr>domain = DOMAIN_TAG (Str ''src''), granularity = QBX_DOF_NODE\<rparr>)
              = Inr d2
        \<and> DOFDescriptor_eq d2 \<lparr>domain = DOMAIN_TAG (Str ''src''), granularity = QBX_DOF_NODE\<rparr>)"
  using as_dofdesc_idempotent [of undefined undefined "PyStr ''src''"
      "\<lparr>domain = DOMAIN_TAG (Str ''src''), granularity = QBX_DOF_NODE\<rparr>" undefined undefined]
  by (simp add: as_dofdesc_valid)

section \<open>Resolving \<open>auto_where\<close>: theorems\<close>

text \<open>
  Claim C8. Expression preparation resolves the default (source, target) pair in this
  order: a two-element \<open>auto_where\<close> is used as (source, target); a single value is
  used for both; with no \<open>auto_where\<close> the collection's own pair is used; with no
  collection either, \<open>DEFAULT_SOURCE\<close> and \<open>DEFAULT_TARGET\<close>. The values are passed
  through \<open>as_dofdesc\<close>, so whatever is returned is a pair of descriptors, and it is
  returned whenever the two values are valid descriptor inputs.
\<close>

theorem prepare_auto_where_precedence:
  "prepare_auto_where (AW_Seq [s, t]) p = as_dofdesc_pair s t
   \<and> prepare_expr_auto_where gc (AW_Seq [s, t]) = as_dofdesc_pair s t
   \<and> prepare_auto_where (AW_Single x) p = as_dofdesc_pair x x
   \<and> prepare_expr_auto_where gc (AW_Single x) = as_dofdesc_pair x x
   \<and> prepare_auto_where AW_None (Some (cs, ct)) = Inr (cs, ct)
   \<and> prepare_expr_auto_where gc AW_None = Inr (auto_where gc)
   \<and> prepare_auto_where AW_None None =
        Inr (\<lparr>domain = DOMAIN_TAG DEFAULT_SOURCE, granularity = QBX_DOF_NODE\<rparr>,
             \<lparr>domain = DOMAIN_TAG DEFAULT_TARGET, granularity = QBX_DOF_NODE\<rparr>)
   \<and> (as_dofdesc s = Inr ds \<and> as_dofdesc t = Inr dt \<longrightarrow> as_dofdesc_pair s t = Inr (ds, dt))"
  by (simp add: prepare_auto_where_def prepare_expr_auto_where_def as_dofdesc_pair_def
      as_dofdesc_def DOFDescriptor_init_def)

theorem prepare_auto_where_precedence_witness:
  "as_dofdesc (PyStr ''src'')
      = Inr \<lparr>domain = DOMAIN_TAG (Str ''src''), granularity = QBX_DOF_NODE\<rparr>
   \<and> as_dofdesc PyDEFAULT_TARGET
      = Inr \<lparr>domain = DOMAIN_TAG DEFAULT_TARGET, granularity = QBX_DOF_NODE\<rparr>
   \<and> prepare_auto_where (AW_Seq [PyStr ''src'', PyDEFAULT_TARGET]) None
      = Inr (\<lparr>domain = DOMAIN_TAG (Str ''src''), granularity = QBX_DOF_NODE\<rparr>,
             \<lparr>domain = DOMAIN_TAG DEFAULT_TARGET, granularity = QBX_DOF_NODE\<rparr>)"
  using prepare_auto_where_precedence [of "PyStr ''src''" PyDEFAULT_TARGET None undefined
      undefined undefined undefined
      "\<lparr>domain = DOMAIN_TAG (Str ''src''), granularity = QBX_DOF_NODE\<rparr>"
      "\<lparr>domain = DOMAIN_TAG DEFAULT_TARGET, granularity = QBX_DOF_NODE\<rparr>"]
  by (simp add: as_dofdesc_valid)

section \<open>The geometry collection: theorems\<close>

subsection \<open>Dictionaries\<close>

lemma map_of_dict_setitem: "map_of (dict_setitem k v d) = (map_of d)(k \<mapsto> v)"
  by (induction k v d rule: dict_setitem.induct) auto

lemma keys_dict_setitem: "fst ` set (dict_setitem k v d) = insert k (fst ` set d)"
  by (induction k v d rule: dict_setitem.induct) auto

lemma values_dict_setitem: "snd ` set (dict_setitem k v d) \<subseteq> insert v (snd ` set d)"
  by (induction k v d rule: dict_setitem.induct) auto

lemma map_of_dict_update:
  "distinct (map fst e) \<Longrightarrow> map_of (dict_update d e) = map_of d ++ map_of e"
proof (induction e arbitrary: d)
  case Nil
  then show ?case by simp
next
  case (Cons kv e)
  obtain k v where kv: "kv = (k, v)" by (cases kv)
  from Cons.prems kv have nin: "map_of e k = None" and dist: "distinct (map fst e)"
    by (auto simp: map_of_eq_None_iff)
  have step: "dict_update d (kv # e) = dict_update (dict_setitem k v d) e"
    using kv by simp
  have "map_of (dict_update (dict_setitem k v d) e) = map_of (dict_setitem k v d) ++ map_of e"
    by (rule Cons.IH [OF dist])
  also have "\<dots> = map_of d ++ map_of (kv # e)"
  proof (rule ext)
    fix x
    show "(map_of (dict_setitem k v d) ++ map_of e) x = (map_of d ++ map_of (kv # e)) x"
      using nin kv
      by (cases "x = k") (simp_all add: map_of_dict_setitem map_add_def split: option.splits)
  qed
  finally show ?case unfolding step .
qed

lemma keys_dict_update:
  "fst ` set (dict_update d e) = fst ` set d \<union> fst ` set e"
proof (induction e arbitrary: d)
  case Nil
  then show ?case by simp
next
  case (Cons kv e)
  obtain k v where kv: "kv = (k, v)" by (cases kv)
  show ?case using Cons.IH [of "dict_setitem k v d"] kv
    by (simp add: keys_dict_setitem)
qed

lemma values_dict_update:
  "snd ` set (dict_update d e) \<subseteq> snd ` set d \<union> snd ` set e"
proof (induction e arbitrary: d)
  case Nil
  then show ?case by simp
next
  case (Cons kv e)
  obtain k v where kv: "kv = (k, v)" by (cases kv)
  have a: "snd ` set (dict_update (dict_setitem k v d) e)
          \<subseteq> snd ` set (dict_setitem k v d) \<union> snd ` set e"
    by (rule Cons.IH)
  have b: "snd ` set (dict_setitem k v d) \<subseteq> insert v (snd ` set d)"
    by (rule values_dict_setitem)
  have c: "snd ` set (kv # e) = insert v (snd ` set e)"
    using kv by simp
  have d: "dict_update d (kv # e) = dict_update (dict_setitem k v d) e"
    using kv by simp
  show ?case unfolding c d using a b by blast
qed

lemma valid_places_dict_update:
  assumes "valid_places d" and "valid_places e"
  shows "valid_places (dict_update d e)"
proof -
  have k: "fst ` set (dict_update d e) = fst ` set d \<union> fst ` set e"
    by (rule keys_dict_update)
  have v: "snd ` set (dict_update d e) \<subseteq> snd ` set d \<union> snd ` set e"
    by (rule values_dict_update)
  from assms have 1: "\<forall>p \<in> snd ` set d \<union> snd ` set e. kind p \<noteq> OtherObject"
    and 2: "\<forall>n \<in> fst ` set d \<union> fst ` set e. \<not> is_str_key_invalid n"
    by (auto simp: valid_places_def dict_values_def dict_keys_def list_ex_iff)
  from 1 v have "\<forall>p \<in> snd ` set (dict_update d e). kind p \<noteq> OtherObject"
    by blast
  moreover from 2 k have "\<forall>n \<in> fst ` set (dict_update d e). \<not> is_str_key_invalid n"
    by simp
  ultimately show ?thesis
    by (simp add: valid_places_def dict_values_def dict_keys_def list_ex_iff)
qed

lemma places_at_Some:
  "places_at h a = Some d \<longleftrightarrow> a < length h \<and> h ! a = PlacesDict d"
  by (auto simp: places_at_def split: heap_obj.splits)

lemma init_mapping:
  assumes "places_at h a = Some d" and "valid_places d"
    and "prepare_auto_where aw None = Inr sw"
  shows "GeometryCollection_init h (Mapping a) aw =
           (Inr \<lparr>places = a, caches = Suc (length h), auto_where = sw\<rparr>,
            h @ [PlacesDict [], CachesDict []])"
proof -
  from assms(1) have a: "a < length h" "h ! a = PlacesDict d"
    by (simp_all add: places_at_Some)
  then have "places_at ((h @ [PlacesDict []]) @ [CachesDict []]) a = Some d"
    by (simp add: places_at_Some nth_append)
  then show ?thesis
    using assms(2,3)
    by (cases sw) (simp add: GeometryCollection_init_def alloc_def init_dispatch1_def
        init_dispatch2_def init_validate_def valid_places_def)
qed

lemma prepare_auto_where_own: "prepare_auto_where (AW_Seq [PyDesc s, PyDesc t]) None = Inr (s, t)"
  by (simp add: prepare_auto_where_def as_dofdesc_pair_def as_dofdesc_def)

lemma copy_of:
  assumes "places_at h a = Some m" and "valid_places m"
  shows "GeometryCollection_copy h self (Some a) None =
           (Inr \<lparr>places = length h, caches = Suc (Suc (length h)),
                 auto_where = auto_where self\<rparr>,
            h @ [PlacesDict m, PlacesDict [], CachesDict []])"
proof -
  have "places_at (h @ [PlacesDict m]) (length h) = Some m"
    by (simp add: places_at_Some)
  from init_mapping [OF this assms(2) prepare_auto_where_own]
  show ?thesis using assms(1)
    by (simp add: GeometryCollection_copy_def alloc_def)
qed

subsection \<open>Construction from a single object\<close>

lemmas init_defs = GeometryCollection_init_def alloc_def prepare_auto_where_def
    as_dofdesc_pair_def as_dofdesc_def DOFDescriptor_init_def init_dispatch1_def
    init_dispatch2_def store_both_def init_validate_def places_at_def places_setitem_def
    dict_values_def dict_keys_def is_str_key_invalid_def geometry_def is_PotentialSource_def

text \<open>
  Claim C10. Constructing a collection from one single object raises
  \<open>AttributeError\<close>, whatever the class of the object, and leaves the new places
  dictionary empty. For a QBX source and for a bare target the first dispatch raises,
  when it evaluates \<open>auto_source.geometry\<close> or \<open>auto_target.geometry\<close> as the key of
  its store; for a discretization and for any other potential source the second dispatch
  raises in the same way. So a bare target is never accepted, with any \<open>auto_where\<close>,
  but it does not reach the last branch of the second dispatch nor the validation loops,
  and a single potential source or discretization is not accepted either. Only an
  object of none of these classes is assigned to \<open>self.places\<close> by the last branch and
  fails in the validation loop.
\<close>

theorem init_single_object_raises:
  fixes h :: "('k, 'v) heap"
  shows
  "GeometryCollection_init h (Scalar g) AW_None
     = (Inl AttributeError, h @ [PlacesDict [], CachesDict []])
   \<and> (\<forall>aw. \<not> (\<exists>gc. fst (GeometryCollection_init h (Scalar g) aw) = Inr gc))
   \<and> (kind g = QBXLayerPotentialSource \<or> kind g = TargetBase \<longrightarrow>
        init_dispatch1 h p (Scalar g) s t = (Inl AttributeError, h))
   \<and> (kind g = Discretization \<or> is_PotentialSource (kind g) \<longrightarrow>
        init_dispatch2 h p (Scalar g) s t = (Inl AttributeError, h))
   \<and> (kind g = OtherObject \<longrightarrow>
        init_dispatch1 h p (Scalar g) s t = (Inr (s, t), h)
        \<and> init_dispatch2 h p (Scalar g) s t = (Inr (RawObject g), h)
        \<and> init_validate h (RawObject g) = Inl AttributeError)"
proof (intro conjI impI)
  show "GeometryCollection_init h (Scalar g) AW_None
     = (Inl AttributeError, h @ [PlacesDict [], CachesDict []])"
    by (cases "kind g") (simp_all add: init_defs)
next
  show "\<forall>aw. \<not> (\<exists>gc. fst (GeometryCollection_init h (Scalar g) aw) = Inr gc)"
    by (cases "kind g")
      (auto simp add: GeometryCollection_init_def alloc_def init_dispatch1_def
        init_dispatch2_def store_both_def init_validate_def geometry_def
        is_PotentialSource_def split: sum.splits prod.splits)
next
  assume "kind g = QBXLayerPotentialSource \<or> kind g = TargetBase"
  then show "init_dispatch1 h p (Scalar g) s t = (Inl AttributeError, h)"
    by (auto simp add: init_dispatch1_def geometry_def)
next
  assume "kind g = Discretization \<or> is_PotentialSource (kind g)"
  then show "init_dispatch2 h p (Scalar g) s t = (Inl AttributeError, h)"
    by (auto simp add: init_dispatch2_def store_both_def geometry_def)
next
  assume "kind g = OtherObject"
  then show "init_dispatch1 h p (Scalar g) s t = (Inr (s, t), h)"
    by (simp add: init_dispatch1_def)
next
  assume "kind g = OtherObject"
  then show "init_dispatch2 h p (Scalar g) s t = (Inr (RawObject g), h)"
    by (simp add: init_dispatch2_def is_PotentialSource_def)
next
  show "init_validate h (RawObject g) = Inl AttributeError"
    by (simp add: init_validate_def)
qed

theorem init_single_object_raises_witness:
  "GeometryCollection_init ([] :: (nat, nat) heap)
       (Scalar \<lparr>kind = Discretization, ambient_dim = 2, ident = 2\<rparr>) AW_None
     = (Inl AttributeError, [PlacesDict [], CachesDict []])
   \<and> init_dispatch1 ([] :: (nat, nat) heap) 0
       (Scalar \<lparr>kind = TargetBase, ambient_dim = 2, ident = 0\<rparr>)
       \<lparr>domain = DOMAIN_TAG DEFAULT_SOURCE, granularity = QBX_DOF_NODE\<rparr>
       \<lparr>domain = DOMAIN_TAG DEFAULT_TARGET, granularity = QBX_DOF_NODE\<rparr>
     = (Inl AttributeError, [])
   \<and> init_dispatch2 ([] :: (nat, nat) heap) 0
       (Scalar \<lparr>kind = Discretization, ambient_dim = 2, ident = 2\<rparr>)
       \<lparr>domain = DOMAIN_TAG DEFAULT_SOURCE, granularity = QBX_DOF_NODE\<rparr>
       \<lparr>domain = DOMAIN_TAG DEFAULT_TARGET, granularity = QBX_DOF_NODE\<rparr>
     = (Inl AttributeError, [])
   \<and> init_dispatch2 ([] :: (nat, nat) heap) 0
       (Scalar \<lparr>kind = OtherObject, ambient_dim = 2, ident = 3\<rparr>)
       \<lparr>domain = DOMAIN_TAG DEFAULT_SOURCE, granularity = QBX_DOF_NODE\<rparr>
       \<lparr>domain = DOMAIN_TAG DEFAULT_TARGET, granularity = QBX_DOF_NODE\<rparr>
     = (Inr (RawObject \<lparr>kind = OtherObject, ambient_dim = 2, ident = 3\<rparr>), [])"
  using
    init_single_object_raises [of "[] :: (nat, nat) heap"
      "\<lparr>kind = Discretization, ambient_dim = 2, ident = 2\<rparr>" 0
      "\<lparr>domain = DOMAIN_TAG DEFAULT_SOURCE, granularity = QBX_DOF_NODE\<rparr>"
      "\<lparr>domain = DOMAIN_TAG DEFAULT_TARGET, granularity = QBX_DOF_NODE\<rparr>"]
    init_single_object_raises [of "[] :: (nat, nat) heap"
      "\<lparr>kind = TargetBase, ambient_dim = 2, ident = 0\<rparr>" 0
      "\<lparr>domain = DOMAIN_TAG DEFAULT_SOURCE, granularity = QBX_DOF_NODE\<rparr>"
      "\<lparr>domain = DOMAIN_TAG DEFAULT_TARGET, granularity = QBX_DOF_NODE\<rparr>"]
    init_single_object_raises [of "[] :: (nat, nat) heap"
      "\<lparr>kind = OtherObject, ambient_dim = 2, ident = 3\<rparr>" 0
      "\<lparr>domain = DOMAIN_TAG DEFAULT_SOURCE, granularity = QBX_DOF_NODE\<rparr>"
      "\<lparr>domain = DOMAIN_TAG DEFAULT_TARGET, granularity = QBX_DOF_NODE\<rparr>"]
  by (simp add: is_PotentialSource_def)

text \<open>
  A tuple is unpacked into two objects, and the store of the first of them raises in the
  same way.
\<close>

lemma init_tuple_raises:
  fixes h :: "('k, 'v) heap"
  shows "GeometryCollection_init h (Tuple [source_discr, target_discr]) AW_None
           = (Inl AttributeError, h @ [PlacesDict [], CachesDict []])"
    and "length gs \<noteq> 2 \<Longrightarrow>
         GeometryCollection_init h (Tuple gs) AW_None
           = (Inl ValueError, h @ [PlacesDict [], CachesDict []])"
proof -
  show "GeometryCollection_init h (Tuple [source_discr, target_discr]) AW_None
           = (Inl AttributeError, h @ [PlacesDict [], CachesDict []])"
    by (simp add: init_defs)
  assume "length gs \<noteq> 2"
  then have "init_dispatch2 h' p (Tuple gs) s t = (Inl ValueError, h')"
    for h' :: "('k, 'v) heap" and p s t
    by (cases gs; cases "tl gs"; cases "tl (tl gs)") (auto simp: init_dispatch2_def)
  then show "GeometryCollection_init h (Tuple gs) AW_None
           = (Inl ValueError, h @ [PlacesDict [], CachesDict []])"
    by (simp add: GeometryCollection_init_def alloc_def prepare_auto_where_def
        as_dofdesc_pair_def as_dofdesc_def DOFDescriptor_init_def init_dispatch1_def)
qed

subsection \<open>Construction from a mapping, and the ambient dimension\<close>

lemma single_valued_mixed:
  assumes "x \<in> set xs" and "y \<in> set xs" and "x \<noteq> y"
  shows "single_valued xs = Inl AssertionError"
proof (cases xs)
  case Nil
  with assms show ?thesis by simp
next
  case (Cons first_item others)
  have "\<not> list_all (\<lambda>other_item. other_item = first_item) others"
  proof
    assume "list_all (\<lambda>other_item. other_item = first_item) others"
    then have "\<forall>z \<in> set xs. z = first_item"
      using Cons by (simp add: list_all_iff)
    with assms show False by metis
  qed
  with Cons show ?thesis by (simp add: single_valued_def)
qed

text \<open>
  Claim C2, as the code has it. The constructor does not look at ambient dimensions:
  given a mapping whose values are of supported classes and whose string keys are
  identifiers, it returns a collection over that very mapping, whatever the dimensions
  are. When two of the geometries differ in ambient dimension, the failure comes from
  the property \<open>ambient_dim\<close> of the constructed collection, when it is read.
\<close>

theorem init_defers_ambient_dim_check:
  fixes h :: "('k, 'v) heap"
  assumes "places_at h a = Some d" and "valid_places d"
    and "prepare_auto_where aw None = Inr sw"
  shows "\<exists>gc h'. GeometryCollection_init h (Mapping a) aw = (Inr gc, h')
           \<and> places gc = a \<and> places_at h' a = Some d
           \<and> ((\<exists>p \<in> set (dict_values d). \<exists>q \<in> set (dict_values d).
                  ambient_dim p \<noteq> ambient_dim q)
                \<longrightarrow> GeometryCollection_ambient_dim h' gc = Inl AssertionError)"
proof -
  let ?gc = "\<lparr>places = a, caches = Suc (length h), auto_where = sw\<rparr>"
  let ?h' = "h @ [PlacesDict [], CachesDict []]"
  have run: "GeometryCollection_init h (Mapping a) aw = (Inr ?gc, ?h')"
    by (rule init_mapping [OF assms])
  from assms(1) have at: "places_at ?h' a = Some d"
    by (simp add: places_at_Some nth_append)
  have "GeometryCollection_ambient_dim ?h' ?gc = Inl AssertionError"
    if "\<exists>p \<in> set (dict_values d). \<exists>q \<in> set (dict_values d). ambient_dim p \<noteq> ambient_dim q"
  proof -
    from that obtain p q where "p \<in> set (dict_values d)" "q \<in> set (dict_values d)"
      "ambient_dim p \<noteq> ambient_dim q" by blast
    then have "single_valued (map ambient_dim (dict_values d)) = Inl AssertionError"
      by (intro single_valued_mixed [of "ambient_dim p" _ "ambient_dim q"]) simp_all
    with at show ?thesis by (simp add: GeometryCollection_ambient_dim_def)
  qed
  with run at show ?thesis by auto
qed

theorem init_defers_ambient_dim_check_witness:
  "\<exists>gc h'. GeometryCollection_init
       ([PlacesDict [(Str ''src'', \<lparr>kind = Discretization, ambient_dim = 2, ident = 0\<rparr>),
                     (Str ''tgt'', \<lparr>kind = TargetBase, ambient_dim = 3, ident = 1\<rparr>)]]
          :: (nat, nat) heap) (Mapping 0) AW_None = (Inr gc, h')
     \<and> places gc = 0
     \<and> GeometryCollection_ambient_dim h' gc = Inl AssertionError"
proof -
  let ?d = "[(Str ''src'', \<lparr>kind = Discretization, ambient_dim = 2, ident = 0\<rparr>),
             (Str ''tgt'', \<lparr>kind = TargetBase, ambient_dim = 3, ident = 1\<rparr>)]"
  have 1: "places_at ([PlacesDict ?d] :: (nat, nat) heap) 0 = Some ?d"
    by (simp add: places_at_def)
  have 2: "valid_places ?d"
    by (simp add: valid_places_def dict_values_def dict_keys_def is_str_key_invalid_def
        is_valid_identifier_def is_letter_or_underscore_def is_digit_def kwlist_def)
  have 3: "prepare_auto_where AW_None None =
      Inr (\<lparr>domain = DOMAIN_TAG DEFAULT_SOURCE, granularity = QBX_DOF_NODE\<rparr>,
           \<lparr>domain = DOMAIN_TAG DEFAULT_TARGET, granularity = QBX_DOF_NODE\<rparr>)"
    by (simp add: prepare_auto_where_def as_dofdesc_pair_def as_dofdesc_def
        DOFDescriptor_init_def)
  from init_defers_ambient_dim_check [OF 1 2 3]
  show ?thesis by (auto simp: dict_values_def)
qed

text \<open>
  The claim as the spec states it fails: a mapping with a two-dimensional and a
  three-dimensional geometry is accepted by the constructor.
\<close>

theorem init_mixed_ambient_dim_counterexample:
  "fst (GeometryCollection_init
       ([PlacesDict [(Str ''src'', \<lparr>kind = Discretization, ambient_dim = 2, ident = 0\<rparr>),
                     (Str ''tgt'', \<lparr>kind = TargetBase, ambient_dim = 3, ident = 1\<rparr>)]]
          :: (nat, nat) heap) (Mapping 0) AW_None)
   = Inr \<lparr>places = 0, caches = 2,
          auto_where =
            (\<lparr>domain = DOMAIN_TAG DEFAULT_SOURCE, granularity = QBX_DOF_NODE\<rparr>,
             \<lparr>domain = DOMAIN_TAG DEFAULT_TARGET, granularity = QBX_DOF_NODE\<rparr>)\<rparr>"
  by (simp add: init_defs is_valid_identifier_def is_letter_or_underscore_def is_digit_def
      kwlist_def)

subsection \<open>Merging\<close>

text \<open>
  Claim C7. For a collection \<open>self\<close> and a dictionary or collection as argument
  (both with supported geometries under identifier keys, as the constructor requires),
  \<open>merge\<close> returns a new collection: its places mapping holds the entries of \<open>self\<close>
  overridden by those of the argument; it is a new dictionary, as is its dictionary of
  caches, which is empty; and every object that existed before the call, the places and
  caches of \<open>self\<close> among them, is left as it was.
\<close>

theorem merge_fresh:
  fixes h :: "('k, 'v) heap"
  assumes self: "places_at h (places self) = Some d"
    and other: "places_at h (case arg of MergeDict a \<Rightarrow> a | MergeCollection g \<Rightarrow> places g) = Some e"
    and valid: "valid_places d" "valid_places e" "distinct (map fst e)"
  shows "\<exists>gc h' m. GeometryCollection_merge h self arg = (Inr gc, h')
           \<and> places_at h' (places gc) = Some m
           \<and> map_of m = map_of d ++ map_of e
           \<and> auto_where gc = auto_where self
           \<and> places_at h' (places self) = Some d
           \<and> take (length h) h' = h
           \<and> length h \<le> places gc \<and> length h \<le> caches gc
           \<and> caches_at h' (caches gc) = Some []"
proof -
  let ?o = "case arg of MergeDict a \<Rightarrow> a | MergeCollection g \<Rightarrow> places g"
  let ?m = "dict_update d e"
  let ?h1 = "h @ [PlacesDict d]"
  let ?h2 = "h @ [PlacesDict ?m]"
  from self have sp: "places self < length h" "h ! places self = PlacesDict d"
    by (simp_all add: places_at_Some)
  from other have o1: "places_at ?h1 ?o = Some e"
    by (simp add: places_at_Some nth_append)
  have upd: "(if (case arg of MergeDict a \<Rightarrow> e \<noteq> [] | MergeCollection g \<Rightarrow> True)
              then ?h1[length h := PlacesDict ?m] else ?h1) = ?h2"
    by (cases "e = []") (simp_all split: merge_arg.splits)
  have at: "places_at ?h2 (length h) = Some ?m"
    by (simp add: places_at_Some)
  have vm: "valid_places ?m"
    by (rule valid_places_dict_update [OF valid(1,2)])
  have run: "GeometryCollection_merge h self arg =
      (Inr \<lparr>places = Suc (length h), caches = Suc (Suc (Suc (length h))),
            auto_where = auto_where self\<rparr>,
       ?h2 @ [PlacesDict ?m, PlacesDict [], CachesDict []])"
    using self o1 upd copy_of [OF at vm, of self]
    by (simp add: GeometryCollection_merge_def alloc_def Let_def)
  show ?thesis
    unfolding run
    using sp map_of_dict_update [OF valid(3), of d]
    by (simp add: places_at_Some caches_at_def nth_append)
qed

theorem merge_fresh_witness:
  "\<exists>gc h' m. GeometryCollection_merge
       ([PlacesDict [(Str ''a'', \<lparr>kind = Discretization, ambient_dim = 2, ident = 0\<rparr>)],
         CachesDict [(''cse'', [(0, 7)])],
         PlacesDict [(Str ''a'', \<lparr>kind = TargetBase, ambient_dim = 2, ident = 1\<rparr>),
                     (Str ''b'', \<lparr>kind = TargetBase, ambient_dim = 2, ident = 2\<rparr>)]]
           :: (nat, nat) heap)
       \<lparr>places = 0, caches = 1,
         auto_where =
           (\<lparr>domain = DOMAIN_TAG (Str ''a''), granularity = QBX_DOF_NODE\<rparr>,
            \<lparr>domain = DOMAIN_TAG (Str ''a''), granularity = QBX_DOF_NODE\<rparr>)\<rparr>
       (MergeDict 2) = (Inr gc, h')
     \<and> places_at h' (places gc) = Some m
     \<and> map_of m (Str ''a'') = Some \<lparr>kind = TargetBase, ambient_dim = 2, ident = 1\<rparr>
     \<and> map_of m (Str ''b'') = Some \<lparr>kind = TargetBase, ambient_dim = 2, ident = 2\<rparr>
     \<and> 3 \<le> places gc \<and> 3 \<le> caches gc
     \<and> caches_at h' (caches gc) = Some []"
proof -
  let ?d = "[(Str ''a'', \<lparr>kind = Discretization, ambient_dim = 2, ident = 0\<rparr>)]"
  let ?e = "[(Str ''a'', \<lparr>kind = TargetBase, ambient_dim = 2, ident = 1\<rparr>),
             (Str ''b'', \<lparr>kind = TargetBase, ambient_dim = 2, ident = 2\<rparr>)]"
  let ?h = "[PlacesDict ?d, CachesDict [(''cse'', [(0, 7)])], PlacesDict ?e] :: (nat, nat) heap"
  let ?self = "\<lparr>places = 0, caches = 1,
         auto_where =
           (\<lparr>domain = DOMAIN_TAG (Str ''a''), granularity = QBX_DOF_NODE\<rparr>,
            \<lparr>domain = DOMAIN_TAG (Str ''a''), granularity = QBX_DOF_NODE\<rparr>)\<rparr>"
  have 1: "places_at ?h (places ?self) = Some ?d"
    by (simp add: places_at_def)
  have 2: "places_at ?h (case MergeDict 2 of MergeDict a \<Rightarrow> a
                          | MergeCollection g \<Rightarrow> places g) = Some ?e"
    by (simp add: places_at_def)
  have 3: "valid_places ?d"
    by (simp add: valid_places_def dict_values_def dict_keys_def is_str_key_invalid_def
        is_valid_identifier_def is_letter_or_underscore_def is_digit_def kwlist_def)
  have 4: "valid_places ?e"
    by (simp add: valid_places_def dict_values_def dict_keys_def is_str_key_invalid_def
        is_valid_identifier_def is_letter_or_underscore_def is_digit_def kwlist_def)
  have 5: "distinct (map fst ?e)"
    by simp
  from merge_fresh [OF 1 2 3 4 5]
  obtain gc h' m where r: "GeometryCollection_merge ?h ?self (MergeDict 2) = (Inr gc, h')"
    "places_at h' (places gc) = Some m" "map_of m = map_of ?d ++ map_of ?e"
    "length ?h \<le> places gc" "length ?h \<le> caches gc" "caches_at h' (caches gc) = Some []"
    by blast
  from r(3) have "map_of m (Str ''a'') = Some \<lparr>kind = TargetBase, ambient_dim = 2, ident = 1\<rparr>"
    "map_of m (Str ''b'') = Some \<lparr>kind = TargetBase, ambient_dim = 2, ident = 2\<rparr>"
    by simp_all
  with r show ?thesis by auto
qed

section \<open>The linear-operator adapter: theorems\<close>

subsection \<open>Building the offset table\<close>

text \<open>
  The loop lays the sizes out contiguously, in the order of the domains, whenever it
  obtains a size for each of them.
\<close>

lemma loop_table:
  "map (domain_size f) doms = map Inr sizes \<Longrightarrow>
   starts_and_ends_loop f doms k acc = Inr (k + sum_list sizes, acc @ table_from k sizes)"
proof (induction doms arbitrary: k acc sizes)
  case Nil
  then show ?case by simp
next
  case (Cons d doms)
  then obtain s ss where sizes: "sizes = s # ss" "domain_size f d = Inr s"
    "map (domain_size f) doms = map Inr ss"
    by (cases sizes) auto
  from Cons.IH [OF sizes(3), of "k + s" "acc @ [(k, k + s)]"] sizes(1,2)
  show ?case by (simp add: add.assoc)
qed

text \<open>
  It obtains none for a descriptor: \<open>dom_name.geometry\<close> raises. As the domains that
  \<open>_prepare_domains\<close> hands to the loop are the collection's \<open>auto_target\<close>, a scalar
  other than \<open>None\<close>, or descriptors made by \<open>as_dofdesc\<close> (which refuses
  \<open>None\<close>), \<open>scipy_op\<close> raises whenever there is at least one result.
\<close>

lemma domain_size_descriptor: "domain_size f (PyDesc dd) = Inl AttributeError"
  by (simp add: domain_size_def geometry_def)

lemma loop_raises:
  "doms \<noteq> [] \<Longrightarrow> PyNone \<notin> set doms \<Longrightarrow> starts_and_ends_loop f doms k acc = Inl AttributeError"
  by (cases doms) (auto simp: domain_size_def geometry_def split: pyobj.splits)

lemma prepare_domains_no_None:
  assumes "prepare_domains nresults domains (PyDesc t) = Inr doms"
  shows "PyNone \<notin> set doms \<and> length doms = nresults"
proof (cases domains)
  case DomainsNone
  with assms show ?thesis by (auto simp: prepare_domains_def)
next
  case (DomainsScalar x)
  with assms show ?thesis by (auto simp: prepare_domains_def split: if_splits)
next
  case (DomainsSeq ds)
  with assms show ?thesis
    by (auto simp: prepare_domains_def split: sum.splits if_splits)
qed

lemma scipy_op_raises:
  assumes "0 < nresults"
  shows "\<exists>e. scipy_op nnodes_of self_call nresults t arg dt domains extra = Inl e"
proof (cases "prepare_domains nresults domains (PyDesc t)")
  case (Inl e)
  then show ?thesis by (simp add: scipy_op_def)
next
  case (Inr doms)
  from prepare_domains_no_None [OF Inr] assms
  have "doms \<noteq> []" "PyNone \<notin> set doms" by auto
  from loop_raises [OF this] Inr show ?thesis by (simp add: scipy_op_def)
qed

subsection \<open>Splitting and joining\<close>





text \<open>
  With at most one entry in the table nothing is split or joined: the wrapped expression
  receives the whole vector on the device, and its result is returned, fetched to the
  host if \<open>x\<close> was on the host.
\<close>

lemma matvec_single:
  assumes "length (starts_and_ends self) \<le> 1"
    and "bound_expr self (dict_setitem (arg_name self) (DeviceArray xs) (extra_args self))
           = Inr (DeviceArray ys)"
  shows "matvec garbage convert self (HostArray xs) = Inr (HostArray ys)"
    and "matvec garbage convert self (DeviceArray xs) = Inr (DeviceArray ys)"
  using assms by (simp_all add: matvec_def Let_def)




section \<open>Elementwise reductions: theorems\<close>

subsection \<open>The loop of \<open>_reduce\<close> and the two kernels\<close>

text \<open>
  On a discretization whose groups lie one after the other, and an operand with one
  entry per node, the loop of \<open>_reduce\<close> with the node kernel gives every node of an
  element the reduced value of that element, and with the element kernel one value
  per element, by global element number.
\<close>

lemma length_slice: "length (slice xs a b) = min (b - a) (length xs - a)"
  by (simp add: slice_def)

lemma group_view_rows:
  "node_nr_base g + group_nnodes g \<le> length xs \<Longrightarrow> group_view g xs = Inr (rows g xs)"
  by (simp add: group_view_def rows_def Let_def length_slice)

lemma length_rows: "length (rows g xs) = nelements g"
  by (simp add: rows_def)

lemma row_length:
  assumes "node_nr_base g + group_nnodes g \<le> length xs" and "row \<in> set (rows g xs)"
  shows "length row = nunit_nodes g"
proof -
  from assms(2) obtain el where el: "el < nelements g"
    and row: "row = slice (slice xs (node_nr_base g) (node_nr_base g + group_nnodes g))
                 (el * nunit_nodes g) (el * nunit_nodes g + nunit_nodes g)"
    by (auto simp: rows_def)
  from el have "Suc el * nunit_nodes g \<le> nelements g * nunit_nodes g"
    by (intro mult_le_mono1) simp
  then have "el * nunit_nodes g + nunit_nodes g \<le> group_nnodes g"
    by (simp add: group_nnodes_def add.commute)
  with assms(1) show ?thesis
    unfolding row by (simp add: length_slice)
qed

lemma chunk_of_concat:
  "\<forall>r \<in> set rs. length r = n \<Longrightarrow> el < length rs \<Longrightarrow>
   slice (concat rs) (el * n) (el * n + n) = rs ! el"
proof (induction rs arbitrary: el)
  case Nil
  then show ?case by simp
next
  case (Cons r rs)
  show ?case
  proof (cases el)
    case 0
    with Cons.prems show ?thesis by (simp add: slice_def)
  next
    case (Suc e)
    with Cons.prems have e: "e < length rs" and all: "\<forall>r \<in> set rs. length r = n"
      and r: "length r = n" by simp_all
    from Cons.IH [OF all e] have "take n (drop (e * n) (concat rs)) = rs ! e"
      by (simp add: slice_def)
    with Suc r show ?thesis by (simp add: slice_def)
  qed
qed

lemma chunks_of_concat:
  assumes "\<forall>r \<in> set rs. length r = n"
  shows "map (\<lambda>el. slice (concat rs) (el * n) (el * n + n)) [0..<length rs] = rs"
  by (rule nth_equalityI) (simp_all add: chunk_of_concat [OF assms])

lemma cumulative_bounds:
  "cumulative base sz b gs \<Longrightarrow> g \<in> set gs \<Longrightarrow>
   b \<le> base g \<and> base g + sz g \<le> b + sum_list (map sz gs)"
proof (induction gs arbitrary: b)
  case Nil
  then show ?case by simp
next
  case (Cons h gs)
  from Cons.prems(1) have h: "base h = b" and rest: "cumulative base sz (b + sz h) gs"
    by simp_all
  show ?case
  proof (cases "g = h")
    case True
    with h show ?thesis by simp
  next
    case False
    with Cons.prems(2) have "g \<in> set gs" by simp
    from Cons.IH [OF rest this] show ?thesis by simp
  qed
qed

lemma layout_slice:
  "cumulative base sz b gs \<Longrightarrow> length pre = b \<Longrightarrow> \<forall>g \<in> set gs. length (out g) = sz g \<Longrightarrow>
   g \<in> set gs \<Longrightarrow>
   slice (pre @ concat (map out gs) @ post) (base g) (base g + sz g) = out g"
proof (induction gs arbitrary: b pre)
  case Nil
  then show ?case by simp
next
  case (Cons h gs)
  from Cons.prems(1) have h: "base h = b" and rest: "cumulative base sz (b + sz h) gs"
    by simp_all
  from Cons.prems(3) have lh: "length (out h) = sz h"
    and lall: "\<forall>g \<in> set gs. length (out g) = sz g" by simp_all
  show ?case
  proof (cases "g = h")
    case True
    with h lh Cons.prems(2) show ?thesis by (simp add: slice_def)
  next
    case False
    with Cons.prems(4) have g: "g \<in> set gs" by simp
    have len: "length (pre @ out h) = b + sz h"
      using Cons.prems(2) lh by simp
    from Cons.IH [OF rest len lall g] show ?thesis by simp
  qed
qed

lemma reduce_loop_layout:
  assumes view: "\<And>g. view g = (base g, base g + sz g)"
  shows "cumulative base sz b gs \<Longrightarrow>
    \<forall>g \<in> set gs. node_nr_base g + group_nnodes g \<le> length xs
                 \<and> length (knl (rows g xs)) = sz g \<Longrightarrow>
    b + sum_list (map sz gs) \<le> length result \<Longrightarrow>
    reduce_loop knl view xs gs result =
      Inr (take b result @ concat (map (\<lambda>g. knl (rows g xs)) gs)
             @ drop (b + sum_list (map sz gs)) result)"
proof (induction gs arbitrary: b result)
  case Nil
  then show ?case by simp
next
  case (Cons h gs)
  from Cons.prems(1) have h: "base h = b" and rest: "cumulative base sz (b + sz h) gs"
    by simp_all
  from Cons.prems(2) have gv: "group_view h xs = Inr (rows h xs)"
    and lk: "length (knl (rows h xs)) = sz h"
    and all: "\<forall>g \<in> set gs. node_nr_base g + group_nnodes g \<le> length xs
                 \<and> length (knl (rows g xs)) = sz g"
    by (simp_all add: group_view_rows)
  let ?r' = "take b result @ knl (rows h xs) @ drop (b + sz h) result"
  from Cons.prems(3) have bs: "b + sz h \<le> length result" by simp
  then have set: "setslice result (fst (view h)) (snd (view h)) (knl (rows h xs)) = Inr ?r'"
    using lk h by (simp add: view setslice_def length_slice)
  have lr: "length ?r' = length result"
    using bs lk by simp
  with Cons.prems(3) have le: "(b + sz h) + sum_list (map sz gs) \<le> length ?r'" by simp
  have tk: "take (b + sz h) ?r' = take b result @ knl (rows h xs)"
    using bs lk by simp
  have dr: "drop (b + sz h + sum_list (map sz gs)) ?r'
              = drop (b + sz h + sum_list (map sz gs)) result"
    using bs lk by (simp add: add.commute)
  from Cons.IH [OF rest all le] gv set tk dr
  show ?case by (simp add: add.assoc)
qed

lemma slice_nth: "i < length (slice xs a b) \<Longrightarrow> slice xs a b ! i = xs ! (a + i)"
proof -
  assume "i < length (slice xs a b)"
  then have i: "i < b - a" "i < length xs - a"
    by (simp_all add: slice_def)
  then have "a \<le> length xs"
    by arith
  with i show ?thesis
    by (simp add: slice_def)
qed

lemma length_node_knl:
  "\<forall>row \<in> set rs. length row = n \<Longrightarrow> length (node_knl red rs) = length rs * n"
  by (induction rs) (simp_all add: node_knl_def)

lemma node_knl_chunks:
  assumes "\<forall>row \<in> set rs. length row = n"
  shows "map (\<lambda>el. slice (node_knl red rs) (el * n) (el * n + n)) [0..<length rs]
           = map (\<lambda>row. replicate n (red row)) rs"
proof -
  let ?out = "map (\<lambda>row. replicate (length row) (red row)) rs"
  have all: "\<forall>r \<in> set ?out. length r = n" using assms by simp
  have eq: "?out = map (\<lambda>row. replicate n (red row)) rs" using assms by simp
  from chunks_of_concat [OF all] show ?thesis
    unfolding node_knl_def eq by simp
qed

lemma reduce_node:
  assumes wf: "wf_discretization discr" and len: "length v = nnodes discr"
  shows "\<exists>r. reduce_groups garbage discr v (nnodes discr) (node_knl red)
                (\<lambda>g. (node_nr_base g, node_nr_base g + group_nnodes g)) = Inr r
          \<and> length r = length v
          \<and> (\<forall>g \<in> set (groups discr). \<exists>rws.
                group_view g v = Inr rws \<and> length rws = nelements g
                \<and> group_view g r = Inr (map (\<lambda>row. replicate (nunit_nodes g) (red row)) rws)
                \<and> (\<forall>el < nelements g. \<forall>i < nunit_nodes g.
                      r ! (node_nr_base g + el * nunit_nodes g + i) = red (rws ! el)))"
proof -
  let ?gs = "groups discr"
  let ?out = "\<lambda>g. node_knl red (rows g v)"
  let ?r = "concat (map ?out ?gs)"
  from wf have cum: "cumulative node_nr_base group_nnodes 0 ?gs"
    and tot: "nnodes discr = sum_list (map group_nnodes ?gs)"
    by (simp_all add: wf_discretization_def)
  have inb: "node_nr_base g + group_nnodes g \<le> length v" if "g \<in> set ?gs" for g
    using cumulative_bounds [OF cum that] len tot by simp
  have lout: "length (?out g) = group_nnodes g" if "g \<in> set ?gs" for g
    using length_node_knl [of "rows g v" "nunit_nodes g" red] row_length [OF inb [OF that]]
    by (simp add: length_rows group_nnodes_def)
  have run: "reduce_loop (node_knl red) (\<lambda>g. (node_nr_base g, node_nr_base g + group_nnodes g))
               v ?gs (map garbage [0..<nnodes discr])
             = Inr (take 0 (map garbage [0..<nnodes discr]) @ ?r
                    @ drop (0 + sum_list (map group_nnodes ?gs)) (map garbage [0..<nnodes discr]))"
    by (rule reduce_loop_layout [OF _ cum]) (simp_all add: inb lout tot)
  then have res: "reduce_groups garbage discr v (nnodes discr) (node_knl red)
                (\<lambda>g. (node_nr_base g, node_nr_base g + group_nnodes g)) = Inr ?r"
    by (simp add: reduce_groups_def tot)
  have lenr: "length ?r = length v"
  proof -
    have m: "map (\<lambda>g. length (?out g)) ?gs = map group_nnodes ?gs"
      using lout by simp
    have "length ?r = sum_list (map (\<lambda>g. length (?out g)) ?gs)"
      by (simp add: length_concat comp_def)
    also have "\<dots> = sum_list (map group_nnodes ?gs)"
      by (rule arg_cong [OF m])
    finally show ?thesis using len tot by simp
  qed
  have per: "\<exists>rws. group_view g v = Inr rws \<and> length rws = nelements g
                \<and> group_view g ?r = Inr (map (\<lambda>row. replicate (nunit_nodes g) (red row)) rws)
                \<and> (\<forall>el < nelements g. \<forall>i < nunit_nodes g.
                      ?r ! (node_nr_base g + el * nunit_nodes g + i) = red (rws ! el))"
    if g: "g \<in> set ?gs" for g
  proof -
    have sl: "slice ?r (node_nr_base g) (node_nr_base g + group_nnodes g) = ?out g"
      using layout_slice [OF cum _ _ g, of "[]" ?out "[]"] lout by simp
    have rl: "\<forall>row \<in> set (rows g v). length row = nunit_nodes g"
      using row_length [OF inb [OF g]] by blast
    have chunks: "map (\<lambda>el. slice (?out g) (el * nunit_nodes g)
                               (el * nunit_nodes g + nunit_nodes g)) [0..<nelements g]
                  = map (\<lambda>row. replicate (nunit_nodes g) (red row)) (rows g v)"
      using node_knl_chunks [OF rl, of red] by (simp add: length_rows)
    have gv: "group_view g ?r = Inr (map (\<lambda>row. replicate (nunit_nodes g) (red row)) (rows g v))"
      using sl lout [OF g] chunks by (simp add: group_view_def Let_def)
    have idx: "?r ! (node_nr_base g + el * nunit_nodes g + i) = red (rows g v ! el)"
      if el: "el < nelements g" and i: "i < nunit_nodes g" for el i
    proof -
      from el have "Suc el * nunit_nodes g \<le> nelements g * nunit_nodes g"
        by (intro mult_le_mono1) simp
      with i have k: "el * nunit_nodes g + i < group_nnodes g"
        by (simp add: group_nnodes_def)
      have c: "slice (?out g) (el * nunit_nodes g) (el * nunit_nodes g + nunit_nodes g)
                 = replicate (nunit_nodes g) (red (rows g v ! el))"
        using arg_cong [OF chunks, of "\<lambda>l. l ! el"] el by (simp add: length_rows)
      have "?r ! (node_nr_base g + (el * nunit_nodes g + i))
              = slice ?r (node_nr_base g) (node_nr_base g + group_nnodes g)
                  ! (el * nunit_nodes g + i)"
        using k lout [OF g] by (subst slice_nth) (simp_all add: sl)
      also have "\<dots> = ?out g ! (el * nunit_nodes g + i)"
        by (simp add: sl)
      also have "\<dots> = slice (?out g) (el * nunit_nodes g)
                          (el * nunit_nodes g + nunit_nodes g) ! i"
        using i by (subst slice_nth) (simp_all add: c)
      also have "\<dots> = red (rows g v ! el)"
        using i by (simp add: c)
      finally show ?thesis by (simp add: add.assoc)
    qed
    from group_view_rows [OF inb [OF g]] gv idx show ?thesis
      by (auto simp: length_rows)
  qed
  from res lenr per show ?thesis by blast
qed

lemma reduce_element:
  assumes wf: "wf_discretization discr" and len: "length v = nnodes discr"
  shows "\<exists>r. reduce_groups garbage discr v (mesh_nelements discr) (element_knl red)
                (\<lambda>g. (element_nr_base g, element_nr_base g + nelements g)) = Inr r
          \<and> length r = mesh_nelements discr
          \<and> (\<forall>g \<in> set (groups discr). \<exists>rws.
                group_view g v = Inr rws \<and> length rws = nelements g
                \<and> mesh_el_view g r = Inr (map red rws)
                \<and> (\<forall>el < nelements g. r ! (element_nr_base g + el) = red (rws ! el)))"
proof -
  let ?gs = "groups discr"
  let ?out = "\<lambda>g. element_knl red (rows g v)"
  let ?r = "concat (map ?out ?gs)"
  let ?g0 = "map garbage [0..<mesh_nelements discr]"
  from wf have cum: "cumulative node_nr_base group_nnodes 0 ?gs"
    and ecum: "cumulative element_nr_base nelements 0 ?gs"
    and tot: "nnodes discr = sum_list (map group_nnodes ?gs)"
    and etot: "mesh_nelements discr = sum_list (map nelements ?gs)"
    by (simp_all add: wf_discretization_def)
  have inb: "node_nr_base g + group_nnodes g \<le> length v" if "g \<in> set ?gs" for g
    using cumulative_bounds [OF cum that] len tot by simp
  have lout: "length (?out g) = nelements g" for g
    by (simp add: element_knl_def length_rows)
  have run: "reduce_loop (element_knl red)
               (\<lambda>g. (element_nr_base g, element_nr_base g + nelements g)) v ?gs ?g0
             = Inr (take 0 ?g0 @ ?r @ drop (0 + sum_list (map nelements ?gs)) ?g0)"
    by (rule reduce_loop_layout [OF _ ecum]) (simp_all add: inb lout etot)
  then have res: "reduce_groups garbage discr v (mesh_nelements discr) (element_knl red)
                (\<lambda>g. (element_nr_base g, element_nr_base g + nelements g)) = Inr ?r"
    by (simp add: reduce_groups_def etot)
  have lenr: "length ?r = mesh_nelements discr"
  proof -
    have m: "map (\<lambda>g. length (?out g)) ?gs = map nelements ?gs"
      using lout by simp
    have "length ?r = sum_list (map (\<lambda>g. length (?out g)) ?gs)"
      by (simp add: length_concat comp_def)
    also have "\<dots> = sum_list (map nelements ?gs)"
      by (rule arg_cong [OF m])
    finally show ?thesis using etot by simp
  qed
  have per: "\<exists>rws. group_view g v = Inr rws \<and> length rws = nelements g
                \<and> mesh_el_view g ?r = Inr (map red rws)
                \<and> (\<forall>el < nelements g. ?r ! (element_nr_base g + el) = red (rws ! el))"
    if g: "g \<in> set ?gs" for g
  proof -
    have sl: "slice ?r (element_nr_base g) (element_nr_base g + nelements g) = ?out g"
      using layout_slice [OF ecum _ _ g, of "[]" ?out "[]"] lout by simp
    then have mv: "mesh_el_view g ?r = Inr (map red (rows g v))"
      using lout [of g] by (simp add: mesh_el_view_def Let_def element_knl_def)
    have idx: "?r ! (element_nr_base g + el) = red (rows g v ! el)"
      if el: "el < nelements g" for el
    proof -
      have "?r ! (element_nr_base g + el)
              = slice ?r (element_nr_base g) (element_nr_base g + nelements g) ! el"
        using el lout [of g] by (subst slice_nth) (simp_all add: sl)
      also have "\<dots> = ?out g ! el"
        by (simp only: sl)
      also have "\<dots> = red (rows g v ! el)"
        using el by (simp add: element_knl_def length_rows)
      finally show ?thesis .
    qed
    from group_view_rows [OF inb [OF g]] mv idx show ?thesis
      by (auto simp: length_rows)
  qed
  from res lenr per show ?thesis by blast
qed

subsection \<open>The mapper methods\<close>

text \<open>
  Claim C4. Each of the three elementwise reductions raises \<open>AttributeError\<close> for
  every node, whatever the collection, the operand and the kernels are: the first
  statement after the local definitions reads \<open>expr.dofdesc\<close>, which the node does
  not have. No reduced vector is returned at any granularity, and the error for an
  unsupported granularity is never reached.
\<close>

theorem elementwise_reduction_raises:
  "map_elementwise_sum garbage reduction get_discretization rec_operand expr
     = Inl AttributeError
   \<and> map_elementwise_min garbage reduction get_discretization rec_operand expr
     = Inl AttributeError
   \<and> map_elementwise_max garbage reduction get_discretization rec_operand expr
     = Inl AttributeError"
  by (simp add: map_elementwise_sum_def map_elementwise_min_def map_elementwise_max_def
      map_elementwise_reduction_def elementwise_dofdesc_def)

section \<open>The evaluation mapper on cached nodes: theorems\<close>

subsection \<open>What one evaluation does to the caches\<close>

lemma once_append:
  "once (xs @ ys) \<longleftrightarrow>
     once xs \<and> once ys
     \<and> (\<forall>x \<in> set xs. returned x \<longrightarrow> (\<forall>y \<in> set ys. run_key y \<noteq> run_key x))"
  by (induction xs) auto

lemma step_refl: "step s s n"
  by (simp add: step_def)

lemma step_mono: "step s s' n \<Longrightarrow> n \<le> m \<Longrightarrow> step s s' m"
  unfolding step_def by (meson less_le_trans)

lemma cached_mono:
  assumes "step s s' n" and "cached s x"
  shows "cached s' x"
proof (cases x)
  case (Pair scope k)
  from assms(1) have be: "be_cse s k \<noteq> None \<Longrightarrow> be_cse s' k \<noteq> None"
    and pl: "pl_cse s k \<noteq> None \<Longrightarrow> pl_cse s' k \<noteq> None"
    unfolding step_def by metis+
  with assms(2) Pair show ?thesis by (auto simp: cached_def split: if_splits)
qed

lemma step_trans:
  assumes a: "step s s1 n" and b: "step s1 s2 m"
  shows "step s s2 (max n m)"
proof -
  have be: "be_cse s k = None \<and> esize k < max n m" if "be_cse s2 k \<noteq> be_cse s k" for k
  proof (cases "be_cse s1 k = be_cse s k")
    case True
    with that b show ?thesis unfolding step_def by (metis max.strict_coboundedI2)
  next
    case False
    with a show ?thesis unfolding step_def by (metis max.strict_coboundedI1)
  qed
  have pl: "pl_cse s k = None \<and> esize k < max n m" if "pl_cse s2 k \<noteq> pl_cse s k" for k
  proof (cases "pl_cse s1 k = pl_cse s k")
    case True
    with that b show ?thesis unfolding step_def by (metis max.strict_coboundedI2)
  next
    case False
    with a show ?thesis unfolding step_def by (metis max.strict_coboundedI1)
  qed
  from a obtain new1 where n1: "cse_runs s1 = cse_runs s @ new1" "once new1"
    "\<forall>x \<in> set new1. \<not> cached s (run_key x) \<and> (returned x \<longrightarrow> cached s1 (run_key x))"
    unfolding step_def by blast
  from b obtain new2 where n2: "cse_runs s2 = cse_runs s1 @ new2" "once new2"
    "\<forall>x \<in> set new2. \<not> cached s1 (run_key x) \<and> (returned x \<longrightarrow> cached s2 (run_key x))"
    unfolding step_def by blast
  have apart: "\<forall>x \<in> set new1. returned x \<longrightarrow> (\<forall>y \<in> set new2. run_key y \<noteq> run_key x)"
    using n1(3) n2(3) by metis
  have d: "once (new1 @ new2)"
    using n1(2) n2(2) apart by (simp add: once_append)
  have c: "\<forall>x \<in> set (new1 @ new2).
             \<not> cached s (run_key x) \<and> (returned x \<longrightarrow> cached s2 (run_key x))"
    using n1(3) n2(3) cached_mono [OF a] cached_mono [OF b] by (metis Un_iff set_append)
  have log: "\<exists>new. cse_runs s2 = cse_runs s @ new \<and> once new
            \<and> (\<forall>x \<in> set new. \<not> cached s (run_key x)
                  \<and> (returned x \<longrightarrow> cached s2 (run_key x)))"
    using n1(1) n2(1) d c by (intro exI [of _ "new1 @ new2"]) simp
  from a b have "be_bound_op s2 = be_bound_op s" "pl_bound_op s2 = pl_bound_op s"
    unfolding step_def by simp_all
  with be pl log show ?thesis
    unfolding step_def by blast
qed

lemma get_cache_fst: "fst (get_cache cs name) = cache_named cs name"
  by (simp add: get_cache_def cache_named_def split: option.splits)

lemma get_cache_snd: "cache_named (snd (get_cache cs name)) name' = cache_named cs name'"
  by (simp add: get_cache_def cache_named_def map_of_dict_setitem split: option.splits)

lemma cache_named_store:
  "cache_named (cache_store cs name k v) name' =
     (if name' = name then dict_setitem k v (cache_named cs name) else cache_named cs name')"
  by (simp add: cache_store_def cache_named_def map_of_dict_setitem)

lemma step_get_cache_be:
  "step s (s\<lparr>bound_expr_caches := snd (get_cache (bound_expr_caches s) name)\<rparr>) n"
  by (simp add: step_def be_cse_def pl_cse_def be_bound_op_def pl_bound_op_def cached_def
      get_cache_snd)

lemma step_get_cache_pl:
  "step s (s\<lparr>places_caches := snd (get_cache (places_caches s) name)\<rparr>) n"
  by (simp add: step_def be_cse_def pl_cse_def be_bound_op_def pl_bound_op_def cached_def
      get_cache_snd)

lemma step_store_be:
  assumes "be_cse s1 child = None"
  shows "step s1 (s1\<lparr>bound_expr_caches := cache_store (bound_expr_caches s1) ''cse'' child v,
                     cse_runs := cse_runs s1 @ [(EXPRESSION, child, True)]\<rparr>)
           (Suc (esize child))"
  using assms
  by (simp add: step_def be_cse_def pl_cse_def be_bound_op_def pl_bound_op_def cached_def
      run_key_def returned_def cache_named_store map_of_dict_setitem)

lemma step_store_pl:
  assumes "pl_cse s1 child = None"
  shows "step s1 (s1\<lparr>places_caches := cache_store (places_caches s1) ''cse'' child v,
                     cse_runs := cse_runs s1 @ [(DISCRETIZATION, child, True)]\<rparr>)
           (Suc (esize child))"
  using assms
  by (simp add: step_def be_cse_def pl_cse_def be_bound_op_def pl_bound_op_def cached_def
      run_key_def returned_def cache_named_store map_of_dict_setitem)

lemma step_raise_be:
  assumes "be_cse s1 child = None"
  shows "step s1 (s1\<lparr>cse_runs := cse_runs s1 @ [(EXPRESSION, child, False)]\<rparr>) n"
  using assms
  by (simp add: step_def be_cse_def pl_cse_def be_bound_op_def pl_bound_op_def cached_def
      run_key_def returned_def)

lemma step_raise_pl:
  assumes "pl_cse s1 child = None"
  shows "step s1 (s1\<lparr>cse_runs := cse_runs s1 @ [(DISCRETIZATION, child, False)]\<rparr>) n"
  using assms
  by (simp add: step_def be_cse_def pl_cse_def be_bound_op_def pl_bound_op_def cached_def
      run_key_def returned_def)

lemma max_simps: "max (0::nat) n = n" "max n (Suc n) = Suc n" "max n n = n"
  by simp_all

lemma inverse_raises:
  "rec P (IterativeInverse expression rhs variable_name extra_vars where') s =
     (Inl AttributeError,
      s\<lparr>places_caches := snd (get_cache (places_caches s) ''bound_op'')\<rparr>)"
  by (simp add: expr_dofdesc_def split: prod.splits option.splits)

lemma rec_step:
  "rec P e s = (r, s') \<Longrightarrow> step s s' (esize e)"
  "rec_children P es s = (rl, s') \<Longrightarrow> step s s' (esize_list es)"
  "rec_kwargs P kvs s = (rk, s') \<Longrightarrow> step s s' (esize_kwargs kvs)"
proof (induction P e s and P es s and P kvs s arbitrary: r s' and rl s' and rk s'
    rule: rec_rec_children_rec_kwargs.induct)
  case (1 P name s)
  then have "s' = s" by (auto split: option.splits)
  then show ?case by (simp add: step_refl)
next
  case (2 P f parameters s)
  obtain rl s1 where a: "rec_children P parameters s = (rl, s1)"
    by (cases "rec_children P parameters s")
  with "2.prems" have "s' = s1" by (auto split: sum.splits)
  with "2.IH" [OF a] show ?case by (auto intro: step_mono)
next
  case (3 P child scope s)
  show ?case
  proof (cases "scope = EXPRESSION")
    case True
    obtain cache cs where gc: "(cache, cs) = get_cache (bound_expr_caches s) ''cse''"
      by (cases "get_cache (bound_expr_caches s) ''cse''") simp
    then have cache: "cache = cache_named (bound_expr_caches s) ''cse''"
      and cs: "cs = snd (get_cache (bound_expr_caches s) ''cse'')"
      by (metis fst_conv get_cache_fst, metis snd_conv)
    let ?s0 = "s\<lparr>bound_expr_caches := cs\<rparr>"
    have st0: "step s ?s0 0" unfolding cs by (rule step_get_cache_be)
    show ?thesis
    proof (cases "map_of cache child")
      case (Some v)
      with "3.prems" True gc [symmetric] have "s' = ?s0" by simp
      with st0 show ?thesis by (auto intro: step_mono)
    next
      case None
      obtain r1 s1 where r1: "rec P child ?s0 = (r1, s1)"
        by (cases "rec P child ?s0")
      from "3.IH"(1) [OF True gc None r1] have st1: "step ?s0 s1 (esize child)" .
      from step_trans [OF st0 st1] have st01: "step s s1 (esize child)" by simp
      have "be_cse ?s0 child = None"
        using None cache by (simp add: be_cse_def cs get_cache_snd)
      with st1 have absent: "be_cse s1 child = None"
        unfolding step_def by (metis less_irrefl)
      show ?thesis
      proof (cases r1)
        case (Inl e)
        with "3.prems" True gc [symmetric] None r1
        have s': "s' = s1\<lparr>cse_runs := cse_runs s1 @ [(EXPRESSION, child, False)]\<rparr>"
          by simp
        from step_raise_be [OF absent, of "esize child"] have "step s1 s' (esize child)"
          by (simp add: s')
        from step_trans [OF st01 this] show ?thesis
          by (auto simp: max_simps intro: step_mono)
      next
        case (Inr v)
        with "3.prems" True gc [symmetric] None r1
        have s': "s' = s1\<lparr>bound_expr_caches := cache_store (bound_expr_caches s1) ''cse'' child v,
                          cse_runs := cse_runs s1 @ [(EXPRESSION, child, True)]\<rparr>"
          by simp
        from step_store_be [OF absent, of v] have "step s1 s' (Suc (esize child))"
          by (simp add: s')
        from step_trans [OF st01 this] show ?thesis by (simp add: max_simps)
      qed
    qed
  next
    case ne: False
    show ?thesis
    proof (cases "scope = DISCRETIZATION")
      case True
      obtain cache cs where gc: "(cache, cs) = get_cache (places_caches s) ''cse''"
        by (cases "get_cache (places_caches s) ''cse''") simp
      then have cache: "cache = cache_named (places_caches s) ''cse''"
        and cs: "cs = snd (get_cache (places_caches s) ''cse'')"
        by (metis fst_conv get_cache_fst, metis snd_conv)
      let ?s0 = "s\<lparr>places_caches := cs\<rparr>"
      have st0: "step s ?s0 0" unfolding cs by (rule step_get_cache_pl)
      show ?thesis
      proof (cases "map_of cache child")
        case (Some v)
        with "3.prems" ne True gc [symmetric] have "s' = ?s0" by simp
        with st0 show ?thesis by (auto intro: step_mono)
      next
        case None
        obtain r1 s1 where r1: "rec P child ?s0 = (r1, s1)"
          by (cases "rec P child ?s0")
        from "3.IH"(2) [OF ne True gc None r1] have st1: "step ?s0 s1 (esize child)" .
        from step_trans [OF st0 st1] have st01: "step s s1 (esize child)" by simp
        have "pl_cse ?s0 child = None"
          using None cache by (simp add: pl_cse_def cs get_cache_snd)
        with st1 have absent: "pl_cse s1 child = None"
          unfolding step_def by (metis less_irrefl)
        show ?thesis
        proof (cases r1)
          case (Inl e)
          with "3.prems" ne True gc [symmetric] None r1
          have s': "s' = s1\<lparr>cse_runs := cse_runs s1 @ [(DISCRETIZATION, child, False)]\<rparr>"
            by simp
          from step_raise_pl [OF absent, of "esize child"] have "step s1 s' (esize child)"
            by (simp add: s')
          from step_trans [OF st01 this] show ?thesis
            by (auto simp: max_simps intro: step_mono)
        next
          case (Inr v)
          with "3.prems" ne True gc [symmetric] None r1
          have s': "s' = s1\<lparr>places_caches := cache_store (places_caches s1) ''cse'' child v,
                            cse_runs := cse_runs s1 @ [(DISCRETIZATION, child, True)]\<rparr>"
            by simp
          from step_store_pl [OF absent, of v] have "step s1 s' (Suc (esize child))"
            by (simp add: s')
          from step_trans [OF st01 this] show ?thesis by (simp add: max_simps)
        qed
      qed
    next
      case False
      with "3.prems" ne have "rec P child s = (r, s')" by simp
      from "3.IH"(3) [OF ne False this] show ?thesis by (auto intro: step_mono)
    qed
  qed
next
  case (4 P expression rhs variable_name extra_vars where' s)
  from "4.prems"
  have "(Inl AttributeError :: error + 'a,
         s\<lparr>places_caches := snd (get_cache (places_caches s) ''bound_op'')\<rparr>) = (r, s')"
    by (simp only: inverse_raises)
  then have "s' = s\<lparr>places_caches := snd (get_cache (places_caches s) ''bound_op'')\<rparr>"
    by simp
  then show ?case by (simp add: step_get_cache_pl)
next
  case (5 P s)
  then show ?case by (simp add: step_refl)
next
  case (6 P e es s)
  obtain r1 s1 where r1: "rec P e s = (r1, s1)" by (cases "rec P e s")
  from "6.IH"(1) [OF r1] have st1: "step s s1 (esize e)" .
  show ?case
  proof (cases r1)
    case (Inl x)
    with "6.prems" r1 have "s' = s1" by simp
    with st1 show ?thesis by (auto intro: step_mono)
  next
    case (Inr v)
    obtain r2 s2 where r2: "rec_children P es s1 = (r2, s2)" by (cases "rec_children P es s1")
    from "6.IH"(2) [OF r1 [symmetric] Inr r2] have st2: "step s1 s2 (esize_list es)" .
    from "6.prems" r1 Inr r2 have "s' = s2" by (auto split: sum.splits)
    with step_trans [OF st1 st2] show ?thesis by (auto intro: step_mono)
  qed
next
  case (7 P s)
  then show ?case by (simp add: step_refl)
next
  case (8 P var_name var_expr rest s)
  obtain r1 s1 where r1: "rec P var_expr s = (r1, s1)" by (cases "rec P var_expr s")
  from "8.IH"(1) [OF r1] have st1: "step s s1 (esize var_expr)" .
  show ?case
  proof (cases r1)
    case (Inl x)
    with "8.prems" r1 have "s' = s1" by simp
    with st1 show ?thesis by (auto intro: step_mono)
  next
    case (Inr v)
    obtain r2 s2 where r2: "rec_kwargs P rest s1 = (r2, s2)" by (cases "rec_kwargs P rest s1")
    from "8.IH"(2) [OF r1 [symmetric] Inr r2] have st2: "step s1 s2 (esize_kwargs rest)" .
    from "8.prems" r1 Inr r2 have "s' = s2" by (auto split: sum.splits)
    with step_trans [OF st1 st2] show ?thesis by (auto intro: step_mono)
  qed
qed

lemma eval_many_step: "\<exists>n. step s (eval_many runs s) n"
proof (induction runs arbitrary: s)
  case Nil
  show ?case by (auto intro: step_refl)
next
  case (Cons pe runs)
  obtain P e where pe: "pe = (P, e)" by (cases pe)
  obtain r s1 where r: "rec P e s = (r, s1)" by (cases "rec P e s")
  from Cons.IH [of s1] obtain n where "step s1 (eval_many runs s1) n" by blast
  from step_trans [OF rec_step(1) [OF r] this] pe r show ?case by auto
qed

lemma runs_memoized_step:
  assumes "step s s' n" and "runs_memoized s"
  shows "runs_memoized s'"
proof -
  from assms(1) obtain new where n: "cse_runs s' = cse_runs s @ new" "once new"
    "\<forall>x \<in> set new. \<not> cached s (run_key x) \<and> (returned x \<longrightarrow> cached s' (run_key x))"
    unfolding step_def by blast
  from assms(2) have old: "once (cse_runs s)"
    "\<forall>x \<in> set (cse_runs s). returned x \<longrightarrow> cached s (run_key x)"
    by (simp_all add: runs_memoized_def)
  have apart: "\<forall>x \<in> set (cse_runs s). returned x \<longrightarrow> (\<forall>y \<in> set new. run_key y \<noteq> run_key x)"
    using old(2) n(3) by metis
  with old(1) n(1,2) have "once (cse_runs s')" by (simp add: once_append)
  moreover have "\<forall>x \<in> set (cse_runs s'). returned x \<longrightarrow> cached s' (run_key x)"
    using n(1,3) old(2) cached_mono [OF assms(1)] by (metis Un_iff set_append)
  ultimately show ?thesis by (simp add: runs_memoized_def)
qed

lemma cse_hit_be:
  assumes "be_cse s child = Some v"
  shows "rec P (CommonSubexpression child EXPRESSION) s = (Inr v, s)"
proof -
  from assms obtain c where c: "map_of (bound_expr_caches s) ''cse'' = Some c"
    "map_of c child = Some v"
    by (auto simp: be_cse_def cache_named_def split: option.splits)
  then show ?thesis by (simp add: get_cache_def)
qed

lemma cse_hit_pl:
  assumes "pl_cse s child = Some v"
  shows "rec P (CommonSubexpression child DISCRETIZATION) s = (Inr v, s)"
proof -
  from assms obtain c where c: "map_of (places_caches s) ''cse'' = Some c"
    "map_of c child = Some v"
    by (auto simp: pl_cse_def cache_named_def split: option.splits)
  then show ?thesis by (simp add: get_cache_def)
qed

lemma cse_miss_be:
  assumes miss: "be_cse s child = None"
    and r1: "rec P child (s\<lparr>bound_expr_caches := snd (get_cache (bound_expr_caches s) ''cse'')\<rparr>)
               = (r, s1)"
  shows "rec P (CommonSubexpression child EXPRESSION) s =
           (case r of
              Inl e \<Rightarrow> (Inl e, s1\<lparr>cse_runs := cse_runs s1 @ [(EXPRESSION, child, False)]\<rparr>)
            | Inr v \<Rightarrow>
                (Inr v, s1\<lparr>bound_expr_caches := cache_store (bound_expr_caches s1) ''cse'' child v,
                           cse_runs := cse_runs s1 @ [(EXPRESSION, child, True)]\<rparr>))"
proof -
  have look: "map_of (fst (get_cache (bound_expr_caches s) ''cse'')) child = None"
    using miss by (simp add: get_cache_fst be_cse_def)
  with r1 show ?thesis by (simp add: case_prod_unfold split: sum.splits)
qed

lemma cse_miss_pl:
  assumes miss: "pl_cse s child = None"
    and r1: "rec P child (s\<lparr>places_caches := snd (get_cache (places_caches s) ''cse'')\<rparr>)
               = (r, s1)"
  shows "rec P (CommonSubexpression child DISCRETIZATION) s =
           (case r of
              Inl e \<Rightarrow> (Inl e, s1\<lparr>cse_runs := cse_runs s1 @ [(DISCRETIZATION, child, False)]\<rparr>)
            | Inr v \<Rightarrow>
                (Inr v, s1\<lparr>places_caches := cache_store (places_caches s1) ''cse'' child v,
                           cse_runs := cse_runs s1 @ [(DISCRETIZATION, child, True)]\<rparr>))"
proof -
  have look: "map_of (fst (get_cache (places_caches s) ''cse'')) child = None"
    using miss by (simp add: get_cache_fst pl_cse_def)
  with r1 show ?thesis by (simp add: case_prod_unfold split: sum.splits)
qed

lemma stored_be:
  "be_cse (s1\<lparr>bound_expr_caches := cache_store (bound_expr_caches s1) ''cse'' child v,
              cse_runs := l\<rparr>) = (be_cse s1)(child \<mapsto> v)"
  "pl_cse (s1\<lparr>bound_expr_caches := cache_store (bound_expr_caches s1) ''cse'' child v,
              cse_runs := l\<rparr>) = pl_cse s1"
  by (simp_all add: be_cse_def pl_cse_def cache_named_store map_of_dict_setitem)

lemma stored_pl:
  "pl_cse (s1\<lparr>places_caches := cache_store (places_caches s1) ''cse'' child v,
              cse_runs := l\<rparr>) = (pl_cse s1)(child \<mapsto> v)"
  "be_cse (s1\<lparr>places_caches := cache_store (places_caches s1) ''cse'' child v,
              cse_runs := l\<rparr>) = be_cse s1"
  by (simp_all add: be_cse_def pl_cse_def cache_named_store map_of_dict_setitem)

lemma memo_stable:
  assumes "rec P e s = (r, s')"
  shows "be_cse s k = Some v \<Longrightarrow> be_cse s' k = Some v"
    and "pl_cse s k = Some v \<Longrightarrow> pl_cse s' k = Some v"
  using rec_step(1) [OF assms] unfolding step_def by (metis option.distinct(1))+

subsection \<open>Common subexpressions\<close>

text \<open>
  Claim C6, as the code has it. A common subexpression of expression scope whose child
  is in the cache of the bound expression evaluates to the memoized value and leaves
  the state as it is, the record of runs included; likewise for discretization scope
  and the cache of the collection. When the child is not in the cache of its scope, the
  child is evaluated: if that returns a value, the node returns this value and stores it
  under the child in the cache of its scope, the other entries and the cache of the
  other scope being as the child's evaluation left them; if it raises, the node raises
  the same exception and stores nothing. With any other scope the node is its child:
  evaluated every time, nothing stored for it. A memoized value is never changed or
  removed by any evaluation. Over repeated evaluations, no run is recorded for a key
  that was memoized when they began; and, starting without recorded runs (from fresh
  caches, for instance), a run that returned a value is the last run of its scope and
  key, and its key is memoized: the computation of a key returns at most once and is
  never started again afterwards.
\<close>

theorem cse_scopes_memoize:
  "(be_cse s child = Some v \<longrightarrow>
      rec P (CommonSubexpression child EXPRESSION) s = (Inr v, s))
   \<and> (pl_cse s child = Some v \<longrightarrow>
      rec P (CommonSubexpression child DISCRETIZATION) s = (Inr v, s))
   \<and> (be_cse s child = None
        \<and> rec P child (s\<lparr>bound_expr_caches := snd (get_cache (bound_expr_caches s) ''cse'')\<rparr>)
            = (Inr v, s1) \<longrightarrow>
      fst (rec P (CommonSubexpression child EXPRESSION) s) = Inr v
      \<and> be_cse (snd (rec P (CommonSubexpression child EXPRESSION) s)) = (be_cse s1)(child \<mapsto> v)
      \<and> pl_cse (snd (rec P (CommonSubexpression child EXPRESSION) s)) = pl_cse s1
      \<and> cse_runs (snd (rec P (CommonSubexpression child EXPRESSION) s))
          = cse_runs s1 @ [(EXPRESSION, child, True)])
   \<and> (be_cse s child = None
        \<and> rec P child (s\<lparr>bound_expr_caches := snd (get_cache (bound_expr_caches s) ''cse'')\<rparr>)
            = (Inl err, s1) \<longrightarrow>
      fst (rec P (CommonSubexpression child EXPRESSION) s) = Inl err
      \<and> be_cse (snd (rec P (CommonSubexpression child EXPRESSION) s)) = be_cse s1
      \<and> pl_cse (snd (rec P (CommonSubexpression child EXPRESSION) s)) = pl_cse s1
      \<and> cse_runs (snd (rec P (CommonSubexpression child EXPRESSION) s))
          = cse_runs s1 @ [(EXPRESSION, child, False)])
   \<and> (pl_cse s child = None
        \<and> rec P child (s\<lparr>places_caches := snd (get_cache (places_caches s) ''cse'')\<rparr>)
            = (Inr v, s1) \<longrightarrow>
      fst (rec P (CommonSubexpression child DISCRETIZATION) s) = Inr v
      \<and> pl_cse (snd (rec P (CommonSubexpression child DISCRETIZATION) s))
          = (pl_cse s1)(child \<mapsto> v)
      \<and> be_cse (snd (rec P (CommonSubexpression child DISCRETIZATION) s)) = be_cse s1
      \<and> cse_runs (snd (rec P (CommonSubexpression child DISCRETIZATION) s))
          = cse_runs s1 @ [(DISCRETIZATION, child, True)])
   \<and> (pl_cse s child = None
        \<and> rec P child (s\<lparr>places_caches := snd (get_cache (places_caches s) ''cse'')\<rparr>)
            = (Inl err, s1) \<longrightarrow>
      fst (rec P (CommonSubexpression child DISCRETIZATION) s) = Inl err
      \<and> pl_cse (snd (rec P (CommonSubexpression child DISCRETIZATION) s)) = pl_cse s1
      \<and> be_cse (snd (rec P (CommonSubexpression child DISCRETIZATION) s)) = be_cse s1
      \<and> cse_runs (snd (rec P (CommonSubexpression child DISCRETIZATION) s))
          = cse_runs s1 @ [(DISCRETIZATION, child, False)])
   \<and> (scope \<noteq> EXPRESSION \<and> scope \<noteq> DISCRETIZATION \<longrightarrow>
      rec P (CommonSubexpression child scope) s = rec P child s)
   \<and> (rec P e s = (r, s'') \<longrightarrow>
        (\<forall>k w. be_cse s k = Some w \<longrightarrow> be_cse s'' k = Some w)
        \<and> (\<forall>k w. pl_cse s k = Some w \<longrightarrow> pl_cse s'' k = Some w))
   \<and> (\<exists>new. cse_runs (eval_many runs s0) = cse_runs s0 @ new
          \<and> (\<forall>x \<in> set new. \<not> cached s0 (run_key x)))
   \<and> (runs_memoized s0 \<longrightarrow>
        once (cse_runs (eval_many runs s0))
        \<and> (\<forall>x \<in> set (cse_runs (eval_many runs s0)).
              returned x \<longrightarrow> cached (eval_many runs s0) (run_key x)))
   \<and> runs_memoized \<lparr>bound_expr_caches = [], places_caches = [], cse_runs = []\<rparr>"
proof (intro conjI impI)
  assume "be_cse s child = Some v"
  then show "rec P (CommonSubexpression child EXPRESSION) s = (Inr v, s)"
    by (rule cse_hit_be)
next
  assume "pl_cse s child = Some v"
  then show "rec P (CommonSubexpression child DISCRETIZATION) s = (Inr v, s)"
    by (rule cse_hit_pl)
next
  assume a: "be_cse s child = None
        \<and> rec P child (s\<lparr>bound_expr_caches := snd (get_cache (bound_expr_caches s) ''cse'')\<rparr>)
            = (Inr v, s1)"
  from a have m: "be_cse s child = None" by (rule conjunct1)
  from a have r: "rec P child (s\<lparr>bound_expr_caches :=
      snd (get_cache (bound_expr_caches s) ''cse'')\<rparr>) = (Inr v, s1)"
    by (rule conjunct2)
  let ?r = "rec P (CommonSubexpression child EXPRESSION) s"
  have eq: "?r = (Inr v, s1\<lparr>bound_expr_caches :=
                 cache_store (bound_expr_caches s1) ''cse'' child v,
               cse_runs := cse_runs s1 @ [(EXPRESSION, child, True)]\<rparr>)"
    using cse_miss_be [OF m r] by simp
  show "fst ?r = Inr v" by (simp only: eq fst_conv)
  show "be_cse (snd ?r) = (be_cse s1)(child \<mapsto> v)" by (simp only: eq snd_conv stored_be)
  show "pl_cse (snd ?r) = pl_cse s1" by (simp only: eq snd_conv stored_be)
  show "cse_runs (snd ?r) = cse_runs s1 @ [(EXPRESSION, child, True)]"
    by (simp only: eq snd_conv) simp
next
  assume a: "be_cse s child = None
        \<and> rec P child (s\<lparr>bound_expr_caches := snd (get_cache (bound_expr_caches s) ''cse'')\<rparr>)
            = (Inl err, s1)"
  from a have m: "be_cse s child = None" by (rule conjunct1)
  from a have r: "rec P child (s\<lparr>bound_expr_caches :=
      snd (get_cache (bound_expr_caches s) ''cse'')\<rparr>) = (Inl err, s1)"
    by (rule conjunct2)
  let ?r = "rec P (CommonSubexpression child EXPRESSION) s"
  have eq: "?r = (Inl err, s1\<lparr>cse_runs := cse_runs s1 @ [(EXPRESSION, child, False)]\<rparr>)"
    using cse_miss_be [OF m r] by simp
  show "fst ?r = Inl err" by (simp only: eq fst_conv)
  show "be_cse (snd ?r) = be_cse s1" by (simp only: eq snd_conv) (simp add: be_cse_def)
  show "pl_cse (snd ?r) = pl_cse s1" by (simp only: eq snd_conv) (simp add: pl_cse_def)
  show "cse_runs (snd ?r) = cse_runs s1 @ [(EXPRESSION, child, False)]"
    by (simp only: eq snd_conv) simp
next
  assume a: "pl_cse s child = None
        \<and> rec P child (s\<lparr>places_caches := snd (get_cache (places_caches s) ''cse'')\<rparr>)
            = (Inr v, s1)"
  from a have m: "pl_cse s child = None" by (rule conjunct1)
  from a have r: "rec P child (s\<lparr>places_caches :=
      snd (get_cache (places_caches s) ''cse'')\<rparr>) = (Inr v, s1)"
    by (rule conjunct2)
  let ?r = "rec P (CommonSubexpression child DISCRETIZATION) s"
  have eq: "?r = (Inr v, s1\<lparr>places_caches :=
                 cache_store (places_caches s1) ''cse'' child v,
               cse_runs := cse_runs s1 @ [(DISCRETIZATION, child, True)]\<rparr>)"
    using cse_miss_pl [OF m r] by simp
  show "fst ?r = Inr v" by (simp only: eq fst_conv)
  show "pl_cse (snd ?r) = (pl_cse s1)(child \<mapsto> v)" by (simp only: eq snd_conv stored_pl)
  show "be_cse (snd ?r) = be_cse s1" by (simp only: eq snd_conv stored_pl)
  show "cse_runs (snd ?r) = cse_runs s1 @ [(DISCRETIZATION, child, True)]"
    by (simp only: eq snd_conv) simp
next
  assume a: "pl_cse s child = None
        \<and> rec P child (s\<lparr>places_caches := snd (get_cache (places_caches s) ''cse'')\<rparr>)
            = (Inl err, s1)"
  from a have m: "pl_cse s child = None" by (rule conjunct1)
  from a have r: "rec P child (s\<lparr>places_caches :=
      snd (get_cache (places_caches s) ''cse'')\<rparr>) = (Inl err, s1)"
    by (rule conjunct2)
  let ?r = "rec P (CommonSubexpression child DISCRETIZATION) s"
  have eq: "?r = (Inl err, s1\<lparr>cse_runs := cse_runs s1 @ [(DISCRETIZATION, child, False)]\<rparr>)"
    using cse_miss_pl [OF m r] by simp
  show "fst ?r = Inl err" by (simp only: eq fst_conv)
  show "pl_cse (snd ?r) = pl_cse s1" by (simp only: eq snd_conv) (simp add: pl_cse_def)
  show "be_cse (snd ?r) = be_cse s1" by (simp only: eq snd_conv) (simp add: be_cse_def)
  show "cse_runs (snd ?r) = cse_runs s1 @ [(DISCRETIZATION, child, False)]"
    by (simp only: eq snd_conv) simp
next
  assume "scope \<noteq> EXPRESSION \<and> scope \<noteq> DISCRETIZATION"
  then show "rec P (CommonSubexpression child scope) s = rec P child s" by simp
next
  assume "rec P e s = (r, s'')"
  from memo_stable [OF this]
  show "\<forall>k w. be_cse s k = Some w \<longrightarrow> be_cse s'' k = Some w"
    "\<forall>k w. pl_cse s k = Some w \<longrightarrow> pl_cse s'' k = Some w" by blast+
next
  from eval_many_step [of s0 runs] obtain n where "step s0 (eval_many runs s0) n" by blast
  then show "\<exists>new. cse_runs (eval_many runs s0) = cse_runs s0 @ new
          \<and> (\<forall>x \<in> set new. \<not> cached s0 (run_key x))"
    unfolding step_def by blast
next
  assume rm: "runs_memoized s0"
  from eval_many_step [of s0 runs] obtain n where "step s0 (eval_many runs s0) n" by blast
  from runs_memoized_step [OF this rm]
  show "once (cse_runs (eval_many runs s0))"
    "\<forall>x \<in> set (cse_runs (eval_many runs s0)).
        returned x \<longrightarrow> cached (eval_many runs s0) (run_key x)"
    by (simp_all add: runs_memoized_def)
next
  show "runs_memoized \<lparr>bound_expr_caches = [], places_caches = [], cse_runs = []\<rparr>"
    by (simp add: runs_memoized_def)
qed

theorem cse_scopes_memoize_witness:
  "fst (rec 
       \<lparr>eval_context = [(''x'', 1 :: nat)], apply_call = (\<lambda>f vs. Inr (sum_list vs)),
           has_geometry = (\<lambda>t. True),
           scipy_op_call = (\<lambda>bound_op q a kw. (Inr bound_op :: error + nat)),
           gmres = (\<lambda>l b. Inr (l + b))\<rparr>
          (CommonSubexpression (Variable ''x'') EXPRESSION)
          \<lparr>bound_expr_caches = [], places_caches = [], cse_runs = []\<rparr>) = Inr 1
   \<and> be_cse (snd (rec 
       \<lparr>eval_context = [(''x'', 1 :: nat)], apply_call = (\<lambda>f vs. Inr (sum_list vs)),
           has_geometry = (\<lambda>t. True),
           scipy_op_call = (\<lambda>bound_op q a kw. (Inr bound_op :: error + nat)),
           gmres = (\<lambda>l b. Inr (l + b))\<rparr>
          (CommonSubexpression (Variable ''x'') EXPRESSION)
          \<lparr>bound_expr_caches = [], places_caches = [], cse_runs = []\<rparr>)) (Variable ''x'')
       = Some 1
   \<and> cse_runs (snd (rec 
       \<lparr>eval_context = [(''x'', 1 :: nat)], apply_call = (\<lambda>f vs. Inr (sum_list vs)),
           has_geometry = (\<lambda>t. True),
           scipy_op_call = (\<lambda>bound_op q a kw. (Inr bound_op :: error + nat)),
           gmres = (\<lambda>l b. Inr (l + b))\<rparr>
          (CommonSubexpression (Variable ''x'') EXPRESSION)
          \<lparr>bound_expr_caches = [], places_caches = [], cse_runs = []\<rparr>))
       = [(EXPRESSION, Variable ''x'', True)]
   \<and> rec 
       \<lparr>eval_context = [(''x'', 2 :: nat)], apply_call = (\<lambda>f vs. Inr (sum_list vs)),
           has_geometry = (\<lambda>t. True),
           scipy_op_call = (\<lambda>bound_op q a kw. (Inr bound_op :: error + nat)),
           gmres = (\<lambda>l b. Inr (l + b))\<rparr>
       (CommonSubexpression (Variable ''x'') EXPRESSION)
       \<lparr>bound_expr_caches = [(''cse'', [(Variable ''x'', 1)])],
         places_caches = [], cse_runs = [(EXPRESSION, Variable ''x'', True)]\<rparr>
     = (Inr 1, \<lparr>bound_expr_caches = [(''cse'', [(Variable ''x'', 1)])],
                 places_caches = [], cse_runs = [(EXPRESSION, Variable ''x'', True)]\<rparr>)
   \<and> once (cse_runs (eval_many
         [(
       \<lparr>eval_context = [(''x'', 1 :: nat)], apply_call = (\<lambda>f vs. Inr (sum_list vs)),
           has_geometry = (\<lambda>t. True),
           scipy_op_call = (\<lambda>bound_op q a kw. (Inr bound_op :: error + nat)),
           gmres = (\<lambda>l b. Inr (l + b))\<rparr>, CommonSubexpression (Variable ''x'') EXPRESSION),
          (
       \<lparr>eval_context = [(''x'', 2 :: nat)], apply_call = (\<lambda>f vs. Inr (sum_list vs)),
           has_geometry = (\<lambda>t. True),
           scipy_op_call = (\<lambda>bound_op q a kw. (Inr bound_op :: error + nat)),
           gmres = (\<lambda>l b. Inr (l + b))\<rparr>, CommonSubexpression (Variable ''x'') EXPRESSION)]
         \<lparr>bound_expr_caches = [], places_caches = [], cse_runs = []\<rparr>))"
proof -
  let ?P1 = "
       \<lparr>eval_context = [(''x'', 1 :: nat)], apply_call = (\<lambda>f vs. Inr (sum_list vs)),
           has_geometry = (\<lambda>t. True),
           scipy_op_call = (\<lambda>bound_op q a kw. (Inr bound_op :: error + nat)),
           gmres = (\<lambda>l b. Inr (l + b))\<rparr>"
  let ?P2 = "
       \<lparr>eval_context = [(''x'', 2 :: nat)], apply_call = (\<lambda>f vs. Inr (sum_list vs)),
           has_geometry = (\<lambda>t. True),
           scipy_op_call = (\<lambda>bound_op q a kw. (Inr bound_op :: error + nat)),
           gmres = (\<lambda>l b. Inr (l + b))\<rparr>"
  let ?x = "Variable ''x''"
  let ?e = "CommonSubexpression ?x EXPRESSION"
  let ?fresh = "\<lparr>bound_expr_caches = [], places_caches = [], cse_runs = []\<rparr> :: nat eval_state"
  let ?s0 = "\<lparr>bound_expr_caches = [(''cse'', [])], places_caches = [], cse_runs = []\<rparr>
               :: nat eval_state"
  let ?s1 = "\<lparr>bound_expr_caches = [(''cse'', [(?x, 1 :: nat)])],
              places_caches = [], cse_runs = [(EXPRESSION, ?x, True)]\<rparr>"
  have miss: "be_cse ?fresh ?x = None"
    by (simp add: be_cse_def cache_named_def)
  have child: "rec ?P1 ?x (?fresh\<lparr>bound_expr_caches :=
                  snd (get_cache (bound_expr_caches ?fresh) ''cse'')\<rparr>) = (Inr 1, ?s0)"
    by (simp add: get_cache_def)
  have hit: "be_cse ?s1 ?x = Some 1"
    by (simp add: be_cse_def cache_named_def)
  note a = cse_scopes_memoize [where s = ?fresh and child = ?x and v = 1 and ?s1.0 = ?s0
      and P = ?P1 and ?s0.0 = ?fresh and runs = "[(?P1, ?e), (?P2, ?e)]"]
  note b = cse_scopes_memoize [where s = ?s1 and child = ?x and v = 1 and P = ?P2]
  from a miss child have 1: "fst (rec ?P1 ?e ?fresh) = Inr 1"
    "be_cse (snd (rec ?P1 ?e ?fresh)) = (be_cse ?s0)(?x \<mapsto> 1)"
    "cse_runs (snd (rec ?P1 ?e ?fresh)) = cse_runs ?s0 @ [(EXPRESSION, ?x, True)]"
    by blast+
  from 1(2) have 2: "be_cse (snd (rec ?P1 ?e ?fresh)) ?x = Some 1" by simp
  from 1(3) have 3: "cse_runs (snd (rec ?P1 ?e ?fresh)) = [(EXPRESSION, ?x, True)]" by simp
  from b hit have 4: "rec ?P2 ?e ?s1 = (Inr 1, ?s1)" by blast
  from a have 5: "once (cse_runs (eval_many [(?P1, ?e), (?P2, ?e)] ?fresh))" by blast
  from 1(1) 2 3 4 5 show ?thesis by blast
qed

text \<open>
  The claim as the spec states it fails: the computation of a key can run more than
  once. In a first evaluation the variable of the child is missing from the context, so
  the computation raises and nothing is stored; in the second evaluation of the same
  bound expression the computation of the same key runs again.
\<close>

theorem cse_raising_run_repeated_counterexample:
  "cse_runs (eval_many
       [(
       \<lparr>eval_context = [], apply_call = (\<lambda>f vs. Inr (sum_list vs)),
           has_geometry = (\<lambda>t. True),
           scipy_op_call = (\<lambda>bound_op q a kw. (Inr bound_op :: error + nat)),
           gmres = (\<lambda>l b. Inr (l + b))\<rparr>, CommonSubexpression (Variable ''x'') EXPRESSION),
        (
       \<lparr>eval_context = [(''x'', 1 :: nat)], apply_call = (\<lambda>f vs. Inr (sum_list vs)),
           has_geometry = (\<lambda>t. True),
           scipy_op_call = (\<lambda>bound_op q a kw. (Inr bound_op :: error + nat)),
           gmres = (\<lambda>l b. Inr (l + b))\<rparr>, CommonSubexpression (Variable ''x'') EXPRESSION)]
       \<lparr>bound_expr_caches = [], places_caches = [], cse_runs = []\<rparr>)
     = [(EXPRESSION, Variable ''x'', False), (EXPRESSION, Variable ''x'', True)]"
  by (simp add: get_cache_def cache_store_def cache_named_def)

subsection \<open>The iterative inverse\<close>

text \<open>
  Claim C1. Evaluating an iterative inverse raises \<open>AttributeError\<close>, in every state
  and with every solver. Whether or not the collection's cache named \<open>bound_op\<close>
  holds a sub-operator for the expression, the next step reads \<open>expr.dofdesc\<close>, which
  the node does not have. The only effect is that the collection has a cache of that
  name afterwards: no sub-operator is bound or stored, in the collection or in the
  bound expression, the extra variables and the right-hand side are not evaluated, and
  the solver is not called, so that no failure of the solver can reach the caller.
\<close>

theorem inverse_raises_attribute_error:
  "rec P (IterativeInverse expression rhs variable_name extra_vars where') s =
     (Inl AttributeError,
      s\<lparr>places_caches := snd (get_cache (places_caches s) ''bound_op'')\<rparr>)
   \<and> pl_bound_op (snd (rec P (IterativeInverse expression rhs variable_name extra_vars where') s))
       = pl_bound_op s
   \<and> bound_expr_caches
       (snd (rec P (IterativeInverse expression rhs variable_name extra_vars where') s))
       = bound_expr_caches s
   \<and> cse_runs (snd (rec P (IterativeInverse expression rhs variable_name extra_vars where') s))
       = cse_runs s"
proof -
  have eq: "rec P (IterativeInverse expression rhs variable_name extra_vars where') s =
     (Inl AttributeError,
      s\<lparr>places_caches := snd (get_cache (places_caches s) ''bound_op'')\<rparr>)"
    by (rule inverse_raises)
  have "pl_bound_op (s\<lparr>places_caches := snd (get_cache (places_caches s) ''bound_op'')\<rparr>)
          = pl_bound_op s"
    by (simp add: pl_bound_op_def get_cache_snd)
  with eq show ?thesis by (simp only: snd_conv) simp
qed

end
